theory Spec2Isabelle
  imports Main "HOL-Library.Sublist"
begin

section \<open>JavaScript values, strings and raised errors\<close>

text \<open>
  Field values of events and of the parameter object given to \<open>includes\<close>. Arrays and
  other objects carry their identity (a reference number): \<open>===\<close> compares objects by
  identity, primitives by value, and \<open>NaN\<close> is unequal to itself.
\<close>

datatype jsval =
    Undefined
  | Null
  | Bool bool
  | Num int
  | NaN
  | Str string
  | Arr nat "jsval list"
  | Obj nat

fun isArray :: "jsval \<Rightarrow> bool" where
  "isArray (Arr r xs) = True"
| "isArray v = False"

fun strict_eq :: "jsval \<Rightarrow> jsval \<Rightarrow> bool" where
  "strict_eq Undefined Undefined = True"
| "strict_eq Null Null = True"
| "strict_eq (Bool a) (Bool b) = (a = b)"
| "strict_eq (Num a) (Num b) = (a = b)"
| "strict_eq (Str a) (Str b) = (a = b)"
| "strict_eq (Arr r xs) (Arr r' ys) = (r = r')"
| "strict_eq (Obj r) (Obj r') = (r = r')"
| "strict_eq a b = False"

text \<open>Decimal rendering of a number inside a template string.\<close>

definition digit_char :: "nat \<Rightarrow> char" where
  "digit_char d = char_of (of_char (CHR ''0'') + d)"

fun decimal :: "nat \<Rightarrow> string" where
  "decimal n =
     (if n div 10 = 0 then [digit_char n]
      else decimal (n div 10) @ [digit_char (n mod 10)])"

declare decimal.simps [simp del]

definition number_to_string :: "int \<Rightarrow> string" where
  "number_to_string i = (if i < 0 then CHR ''-'' # decimal (nat (- i)) else decimal (nat i))"

fun join :: "string \<Rightarrow> string list \<Rightarrow> string" where
  "join sep [] = []"
| "join sep [s] = s"
| "join sep (s # t # rest) = s @ sep @ join sep (t # rest)"

text \<open>\<open>String(v)\<close>, as a template string renders a value.\<close>

fun to_string :: "jsval \<Rightarrow> string" where
  "to_string Undefined = ''undefined''"
| "to_string Null = ''null''"
| "to_string (Bool b) = (if b then ''true'' else ''false'')"
| "to_string (Num i) = number_to_string i"
| "to_string NaN = ''NaN''"
| "to_string (Str s) = s"
| "to_string (Arr r xs) =
     join '','' (map (\<lambda>x. if x = Undefined \<or> x = Null then [] else to_string x) xs)"
| "to_string (Obj r) = ''[object Object]''"

text \<open>
  \<open>toLowerCase\<close> and \<open>String.prototype.includes\<close>. On a string of ASCII characters
  \<open>toLowerCase\<close> turns \<open>A\<close> to \<open>Z\<close> into \<open>a\<close> to \<open>z\<close> and leaves the rest. What it makes of
  a string with other characters is the runtime's own table, which is a parameter here.
\<close>

definition is_ascii :: "char \<Rightarrow> bool" where
  "is_ascii c = ((of_char c :: nat) < 128)"

definition lower_char :: "char \<Rightarrow> char" where
  "lower_char c =
     (let n = (of_char c :: nat) in if 65 \<le> n \<and> n \<le> 90 then char_of (n + 32) else c)"

definition toLowerCase :: "(string \<Rightarrow> string) \<Rightarrow> string \<Rightarrow> string" where
  "toLowerCase beyond_ascii s = (if list_all is_ascii s then map lower_char s else beyond_ascii s)"

definition str_includes :: "string \<Rightarrow> string \<Rightarrow> bool" where
  "str_includes s part = sublist part s"

text \<open>
  What a \<open>throw\<close> carries: an \<open>Error\<close> instance with its message and, when it was built
  by \<open>throwError\<close>, the \<open>actual\<close> and \<open>expected\<close> properties; or any other value.
\<close>

datatype thrown =
    Error (error_message: string) (error_actual: "string option") (error_expected: "string option")
  | NonError jsval

section \<open>Events and the aggregate root\<close>

text \<open>
  An event instance: the name of the constructor of its prototype, and its own fields in
  insertion order. An event class, as handed to the test toolkit, is known by its \<open>name\<close>.
\<close>

record IEvent =
  constructor_name :: string
  props :: "(string \<times> jsval) list"

record INodeMetadata =
  node_id :: string
  index :: int

record IEventNode =
  event :: IEvent
  metadata :: INodeMetadata

datatype EventClass = EventClass (name: string)

definition get_prop :: "(string \<times> jsval) list \<Rightarrow> string \<Rightarrow> jsval" where
  "get_prop obj prop = (case map_of obj prop of Some v \<Rightarrow> v | None \<Rightarrow> Undefined)"

text \<open>
  The aggregate. Its three arrays are held by their contents. The failure handler it
  stores is a function object, held by its identity \<open>'h\<close>: what calling it does is given
  apart from the aggregate, since it runs with the aggregate itself.
\<close>

record ('s, 'h) AggregateRoot =
  INTERNAL_EVENTS :: "IEvent list"
  INTERNAL_EVENTS_HISTORY :: "IEvent list"
  INTERNAL_EVENTS_NODES_HISTORY :: "IEventNode list"
  FAILURE_HANDLER :: "'h option"
  state :: 's
  aggregate_id :: string

text \<open>
  Code that runs with the aggregate: what it raised, if anything, and the aggregate it
  leaves. It may do to the aggregate whatever its methods and fields allow: call \<open>apply\<close>,
  \<open>commit\<close> or \<open>loadFromHistory\<close>, change the arrays, assign the state, raise.
\<close>

type_synonym ('s, 'h) action = "('s, 'h) AggregateRoot \<Rightarrow> thrown option \<times> ('s, 'h) AggregateRoot"

text \<open>
  What a subclass declares under a property name: a method, called bound to the aggregate
  with the event, or something that is not callable. A class is the table of these members.
\<close>

datatype ('s, 'h) member =
    Method "IEvent \<Rightarrow> ('s, 'h) action"
  | NotCallable

type_synonym ('s, 'h) aggregate_class = "string \<Rightarrow> ('s, 'h) member option"

text \<open>
  What a failure handler does when it is called with an error: it runs with the aggregate
  and with the world \<open>'w\<close> of the aggregate's owner, and may itself raise. The functions
  behind the stored identities are a table \<open>'h \<Rightarrow> IAggregateFailureHandler\<close>.
\<close>

type_synonym ('s, 'h, 'w) IAggregateFailureHandler =
  "thrown \<Rightarrow> ('s, 'h) AggregateRoot \<times> 'w \<Rightarrow> thrown option \<times> ('s, 'h) AggregateRoot \<times> 'w"

definition new_AggregateRoot :: "string \<Rightarrow> 's \<Rightarrow> ('s, 'h) AggregateRoot" where
  "new_AggregateRoot i s0 =
     \<lparr> INTERNAL_EVENTS = [], INTERNAL_EVENTS_HISTORY = [], INTERNAL_EVENTS_NODES_HISTORY = [],
       FAILURE_HANDLER = None, state = s0, aggregate_id = i \<rparr>"

definition getState :: "('s, 'h) AggregateRoot \<Rightarrow> 's" where
  "getState this = state this"

definition commit :: "('s, 'h) AggregateRoot \<Rightarrow> ('s, 'h) AggregateRoot" where
  "commit this = this\<lparr>INTERNAL_EVENTS := []\<rparr>"

definition uncommit :: "('s, 'h) AggregateRoot \<Rightarrow> ('s, 'h) AggregateRoot" where
  "uncommit this = this\<lparr>INTERNAL_EVENTS := []\<rparr>"

definition getUncommittedEvents :: "('s, 'h) AggregateRoot \<Rightarrow> IEvent list" where
  "getUncommittedEvents this = INTERNAL_EVENTS this"

definition getLoadedEvents :: "('s, 'h) AggregateRoot \<Rightarrow> IEvent list" where
  "getLoadedEvents this = INTERNAL_EVENTS_HISTORY this"

definition getLoadedEventNodes :: "('s, 'h) AggregateRoot \<Rightarrow> IEventNode list" where
  "getLoadedEventNodes this = INTERNAL_EVENTS_NODES_HISTORY this"

definition getEventName :: "IEvent \<Rightarrow> string" where
  "getEventName ev = constructor_name ev"

definition getEventHandler ::
  "('s, 'h) aggregate_class \<Rightarrow> IEvent \<Rightarrow> (IEvent \<Rightarrow> ('s, 'h) action) option" where
  "getEventHandler cls ev =
     (let handler = ''on'' @ getEventName ev in
      case cls handler of
        Some (Method m) \<Rightarrow> Some m
      | _ \<Rightarrow> None)"

definition apply' ::
  "('s, 'h) aggregate_class \<Rightarrow> IEvent \<Rightarrow> bool \<Rightarrow> ('s, 'h) action" where
  "apply' cls ev isFromHistory this =
     (let this1 = (if \<not> isFromHistory
                   then this\<lparr>INTERNAL_EVENTS := INTERNAL_EVENTS this @ [ev]\<rparr>
                   else this)
      in case getEventHandler cls ev of
           None \<Rightarrow> (None, this1)
         | Some handler \<Rightarrow> handler ev this1)"

text \<open>
  The array handed to \<open>loadFromHistory\<close> or \<open>loadFromEventNodes\<close> is an array of the
  caller's, or one of the aggregate's own arrays, which the getters return as they are.
  In the second case the loop reads the array that the aggregate is writing.
\<close>

datatype event_array = Given_events "IEvent list" | The_uncommitted_events | The_loaded_events

datatype node_array = Given_nodes "IEventNode list" | The_loaded_nodes

fun events_in :: "event_array \<Rightarrow> ('s, 'h) AggregateRoot \<Rightarrow> IEvent list" where
  "events_in (Given_events xs) this = xs"
| "events_in The_uncommitted_events this = INTERNAL_EVENTS this"
| "events_in The_loaded_events this = INTERNAL_EVENTS_HISTORY this"

fun nodes_in :: "node_array \<Rightarrow> ('s, 'h) AggregateRoot \<Rightarrow> IEventNode list" where
  "nodes_in (Given_nodes xs) this = xs"
| "nodes_in The_loaded_nodes this = INTERNAL_EVENTS_NODES_HISTORY this"

text \<open>
  \<open>Array.prototype.forEach\<close> with a callback that runs with the aggregate: the length is
  read once, each index below it is visited in turn if the array still has it, with the
  element the array holds then; a raise ends the loop. \<open>forEach_from read f k n\<close> visits
  the \<open>n\<close> indices from \<open>k\<close> on.
\<close>

fun forEach_from ::
  "(('s, 'h) AggregateRoot \<Rightarrow> 'a list) \<Rightarrow> ('a \<Rightarrow> ('s, 'h) action) \<Rightarrow> nat \<Rightarrow> nat \<Rightarrow> ('s, 'h) action" where
  "forEach_from read f k 0 this = (None, this)"
| "forEach_from read f k (Suc n) this =
     (if k < length (read this)
      then (case f (read this ! k) this of
              (Some err, this1) \<Rightarrow> (Some err, this1)
            | (None, this1) \<Rightarrow> forEach_from read f (Suc k) n this1)
      else forEach_from read f (Suc k) n this)"

definition forEach_array ::
  "(('s, 'h) AggregateRoot \<Rightarrow> 'a list) \<Rightarrow> ('a \<Rightarrow> ('s, 'h) action) \<Rightarrow> ('s, 'h) action" where
  "forEach_array read f this = forEach_from read f 0 (length (read this)) this"

text \<open>The callbacks of the two loops, and the loops.\<close>

definition history_step :: "('s, 'h) aggregate_class \<Rightarrow> IEvent \<Rightarrow> ('s, 'h) action" where
  "history_step cls ev this =
     (case apply' cls ev True this of
        (Some err, this1) \<Rightarrow> (Some err, this1)
      | (None, this1) \<Rightarrow>
          (None, this1\<lparr>INTERNAL_EVENTS_HISTORY := INTERNAL_EVENTS_HISTORY this1 @ [ev]\<rparr>))"

definition node_step :: "('s, 'h) aggregate_class \<Rightarrow> IEventNode \<Rightarrow> ('s, 'h) action" where
  "node_step cls node this =
     (case apply' cls (event node) True this of
        (Some err, this1) \<Rightarrow> (Some err, this1)
      | (None, this1) \<Rightarrow>
          (None, this1\<lparr>INTERNAL_EVENTS_NODES_HISTORY := INTERNAL_EVENTS_NODES_HISTORY this1 @ [node]\<rparr>))"

definition loadFromHistory ::
  "('s, 'h) aggregate_class \<Rightarrow> event_array \<Rightarrow> ('s, 'h) action" where
  "loadFromHistory cls history this = forEach_array (events_in history) (history_step cls) this"

definition loadFromEventNodes ::
  "('s, 'h) aggregate_class \<Rightarrow> node_array \<Rightarrow> ('s, 'h) action" where
  "loadFromEventNodes cls nodes this =
     (case forEach_array (nodes_in nodes) (node_step cls) this of
        (Some err, this1) \<Rightarrow> (Some err, this1)
      | (None, this1) \<Rightarrow>
          (let events = map event (nodes_in nodes this1)
           in loadFromHistory cls (Given_events events) this1))"

definition snapshot :: "('s, 'h) AggregateRoot \<Rightarrow> IEvent option" where
  "snapshot this = None"

definition setFailureHandler :: "'h \<Rightarrow> ('s, 'h) AggregateRoot \<Rightarrow> ('s, 'h) AggregateRoot" where
  "setFailureHandler handler this = this\<lparr>FAILURE_HANDLER := Some handler\<rparr>"

text \<open>
  \<open>fail\<close>: what it raises to its caller, if anything, and the aggregate and the owner's
  world afterwards.
\<close>

definition fail ::
  "('h \<Rightarrow> ('s, 'h, 'w) IAggregateFailureHandler) \<Rightarrow> thrown \<Rightarrow> ('s, 'h) AggregateRoot \<Rightarrow> 'w
     \<Rightarrow> thrown option \<times> ('s, 'h) AggregateRoot \<times> 'w" where
  "fail handlers error this w =
     (case FAILURE_HANDLER this of
        Some handler \<Rightarrow> handlers handler error (this, w)
      | None \<Rightarrow> (Some error, this, w))"

text \<open>
  The public operations of an aggregate, and the aggregate and its owner's world after one
  of them was called (whether the call returned or raised) and after a sequence of them.
  The getters and \<open>snapshot\<close> only return a value.
\<close>

datatype 'h operation =
    Op_apply IEvent bool
  | Op_commit
  | Op_uncommit
  | Op_loadFromHistory event_array
  | Op_loadFromEventNodes node_array
  | Op_snapshot
  | Op_setFailureHandler 'h
  | Op_fail thrown
  | Op_getState
  | Op_getUncommittedEvents
  | Op_getLoadedEvents
  | Op_getLoadedEventNodes

fun perform ::
  "('h \<Rightarrow> ('s, 'h, 'w) IAggregateFailureHandler) \<Rightarrow> ('s, 'h) aggregate_class \<Rightarrow> 'h operation
     \<Rightarrow> ('s, 'h) AggregateRoot \<times> 'w \<Rightarrow> ('s, 'h) AggregateRoot \<times> 'w" where
  "perform handlers cls (Op_apply ev isFromHistory) (this, w) = (snd (apply' cls ev isFromHistory this), w)"
| "perform handlers cls Op_commit (this, w) = (commit this, w)"
| "perform handlers cls Op_uncommit (this, w) = (uncommit this, w)"
| "perform handlers cls (Op_loadFromHistory history) (this, w) = (snd (loadFromHistory cls history this), w)"
| "perform handlers cls (Op_loadFromEventNodes nodes) (this, w) = (snd (loadFromEventNodes cls nodes this), w)"
| "perform handlers cls Op_snapshot (this, w) = (this, w)"
| "perform handlers cls (Op_setFailureHandler handler) (this, w) = (setFailureHandler handler this, w)"
| "perform handlers cls (Op_fail error) (this, w) = snd (fail handlers error this w)"
| "perform handlers cls Op_getState (this, w) = (this, w)"
| "perform handlers cls Op_getUncommittedEvents (this, w) = (this, w)"
| "perform handlers cls Op_getLoadedEvents (this, w) = (this, w)"
| "perform handlers cls Op_getLoadedEventNodes (this, w) = (this, w)"

definition perform_all ::
  "('h \<Rightarrow> ('s, 'h, 'w) IAggregateFailureHandler) \<Rightarrow> ('s, 'h) aggregate_class \<Rightarrow> 'h operation list
     \<Rightarrow> ('s, 'h) AggregateRoot \<times> 'w \<Rightarrow> ('s, 'h) AggregateRoot \<times> 'w" where
  "perform_all handlers cls ops s = fold (perform handlers cls) ops s"

text \<open>
  The uncommitted buffer as the specification describes it: it grows by an \<open>apply\<close> that is
  not from history, \<open>commit\<close> and \<open>uncommit\<close> empty it, nothing else touches it.
\<close>

fun spec_buffer :: "'h operation \<Rightarrow> IEvent list \<Rightarrow> IEvent list" where
  "spec_buffer (Op_apply ev False) buffer = buffer @ [ev]"
| "spec_buffer Op_commit buffer = []"
| "spec_buffer Op_uncommit buffer = []"
| "spec_buffer other buffer = buffer"

text \<open>
  Conditions on the code that runs with the aggregate: the handlers of a class return,
  and the handlers of a class, or the failure handlers, leave a part \<open>g\<close> of the aggregate
  (one of its arrays) as they found it.
\<close>

definition handlers_return :: "('s, 'h) aggregate_class \<Rightarrow> bool" where
  "handlers_return cls = (\<forall>n m ev this. cls n = Some (Method m) \<longrightarrow> fst (m ev this) = None)"

definition handlers_keep :: "(('s, 'h) AggregateRoot \<Rightarrow> 'a) \<Rightarrow> ('s, 'h) aggregate_class \<Rightarrow> bool" where
  "handlers_keep g cls = (\<forall>n m ev this. cls n = Some (Method m) \<longrightarrow> g (snd (m ev this)) = g this)"

definition failure_handlers_keep ::
  "(('s, 'h) AggregateRoot \<Rightarrow> 'a) \<Rightarrow> ('h \<Rightarrow> ('s, 'h, 'w) IAggregateFailureHandler) \<Rightarrow> bool" where
  "failure_handlers_keep g handlers = (\<forall>h error this w. g (fst (snd (handlers h error (this, w)))) = g this)"

text \<open>
  One step of a replay: an event taken from a node is dispatched from history and the node
  recorded, or an event is dispatched from history and recorded among the loaded events.
\<close>

fun replay_step ::
  "('s, 'h) aggregate_class \<Rightarrow> IEventNode + IEvent \<Rightarrow> ('s, 'h) AggregateRoot \<Rightarrow> ('s, 'h) AggregateRoot" where
  "replay_step cls (Inl node) this =
     (let this1 = snd (apply' cls (event node) True this)
      in this1\<lparr>INTERNAL_EVENTS_NODES_HISTORY := INTERNAL_EVENTS_NODES_HISTORY this1 @ [node]\<rparr>)"
| "replay_step cls (Inr ev) this =
     (let this1 = snd (apply' cls ev True this)
      in this1\<lparr>INTERNAL_EVENTS_HISTORY := INTERNAL_EVENTS_HISTORY this1 @ [ev]\<rparr>)"

text \<open>The state a handler call leaves, when the handler looks at nothing but the state.\<close>

definition dispatch_state :: "('s, 'h) aggregate_class \<Rightarrow> IEvent \<Rightarrow> 's \<Rightarrow> 's" where
  "dispatch_state cls ev s =
     (case getEventHandler cls ev of
        None \<Rightarrow> s
      | Some handler \<Rightarrow> state (snd (handler ev (new_AggregateRoot [] s))))"

definition reads_state_only :: "('s, 'h) aggregate_class \<Rightarrow> bool" where
  "reads_state_only cls =
     (\<forall>n m ev this this'. cls n = Some (Method m) \<longrightarrow> state this = state this'
        \<longrightarrow> state (snd (m ev this)) = state (snd (m ev this')))"

subsection \<open>The aggregate of the repository's tests\<close>

text \<open>
  \<open>TestAggregate\<close> of the test suite: its state is an object, and \<open>onCreated\<close> copies the
  event's \<open>id\<close> and \<open>createdAt\<close> into it.
\<close>

fun set_prop :: "(string \<times> jsval) list \<Rightarrow> string \<Rightarrow> jsval \<Rightarrow> (string \<times> jsval) list" where
  "set_prop [] k v = [(k, v)]"
| "set_prop ((k', v') # obj) k v = (if k' = k then (k, v) # obj else (k', v') # set_prop obj k v)"

definition onCreated :: "IEvent \<Rightarrow> ((string \<times> jsval) list, unit) action" where
  "onCreated ev this =
     (None,
      this\<lparr>state := set_prop (set_prop (state this) ''id'' (get_prop (props ev) ''id''))
                       ''createdAt'' (get_prop (props ev) ''createdAt'')\<rparr>)"

definition TestAggregate :: "((string \<times> jsval) list, unit) aggregate_class" where
  "TestAggregate n = (if n = ''onCreated'' then Some (Method onCreated) else None)"

definition Created :: "string \<Rightarrow> string \<Rightarrow> IEvent" where
  "Created i createdAt =
     \<lparr> constructor_name = ''Created'', props = [(''id'', Str i), (''createdAt'', Str createdAt)] \<rparr>"

definition plain_event :: "string \<Rightarrow> IEvent" where
  "plain_event n = \<lparr> constructor_name = n, props = [] \<rparr>"

section \<open>The test toolkit\<close>

text \<open>
  The toolkit colours its messages with an external library, and compares arrays with an
  external matcher (\<open>expect(a).to.contain(b)\<close>, which raises when \<open>a\<close> does not contain
  \<open>b\<close>); both are parameters here, as is the runtime's lower-casing of strings beyond
  ASCII (\<open>lc\<close>). What the \<open>debug\<close> flag prints is not part of the model: it changes no
  result.
\<close>

record colors =
  red :: "string \<Rightarrow> string"
  green :: "string \<Rightarrow> string"

type_synonym matcher = "jsval \<Rightarrow> jsval \<Rightarrow> bool"

definition quoted :: "string \<Rightarrow> string" where
  "quoted s = [CHR 0x27] @ s @ [CHR 0x27]"

definition getEventClassName :: "EventClass \<Rightarrow> string" where
  "getEventClassName cl = name cl"

definition getEventProtoName :: "IEvent \<Rightarrow> string" where
  "getEventProtoName ev = constructor_name ev"

definition occurances :: "string list \<Rightarrow> string \<Rightarrow> nat" where
  "occurances list key = foldl (\<lambda>acc curr. acc + (if curr = key then 1 else 0)) 0 list"

definition throwError :: "colors \<Rightarrow> string \<Rightarrow> string \<Rightarrow> string \<Rightarrow> thrown" where
  "throwError col mess act exp =
     (let msg = red col mess;
          ex = (if exp \<noteq> [] then green col (''Expected: '' @ exp) else []);
          ac = (if exp \<noteq> [] then red col (''Received: '' @ act) else []);
          errorMessage = msg @ [CHR 0x0A, CHR 0x0A] @ ''  '' @ ex @ [CHR 0x0A] @ ''  '' @ ac @ [CHR 0x0A]
      in Error errorMessage (Some act) (Some exp))"

text \<open>
  A \<open>forEach\<close> whose callback may raise: the first raise ends the loop. \<open>None\<close> says that
  nothing was raised.
\<close>

primrec forEach :: "('a \<Rightarrow> thrown option) \<Rightarrow> 'a list \<Rightarrow> thrown option" where
  "forEach f [] = None"
| "forEach f (x # xs) = (case f x of Some err \<Rightarrow> Some err | None \<Rightarrow> forEach f xs)"

text \<open>Statements in sequence: the first that raises ends the function.\<close>

primrec in_sequence :: "thrown option list \<Rightarrow> thrown option" where
  "in_sequence [] = None"
| "in_sequence (s # rest) = (case s of Some err \<Rightarrow> Some err | None \<Rightarrow> in_sequence rest)"

text \<open>A callback given to \<open>when\<close> or \<open>after\<close>: what it raised, if anything, and the aggregate it leaves.\<close>

type_synonym ('s, 'h) callback = "('s, 'h) action"

text \<open>The variables that \<open>check\<close> closes over.\<close>

record ('s, 'h) chain =
  aggregate :: "('s, 'h) AggregateRoot"
  flags :: "string list"
  events :: "EventClass list"
  occuranceExpectation :: int
  withMessage :: "string option"

definition check :: "('s, 'h) AggregateRoot \<Rightarrow> ('s, 'h) chain" where
  "check a = \<lparr> aggregate = a, flags = [], events = [], occuranceExpectation = - 1, withMessage = None \<rparr>"

definition addEvents :: "EventClass list \<Rightarrow> ('s, 'h) chain \<Rightarrow> ('s, 'h) chain" where
  "addEvents evs c = c\<lparr>events := evs\<rparr>"

definition check_excludes :: "colors \<Rightarrow> string list \<Rightarrow> EventClass \<Rightarrow> thrown option" where
  "check_excludes col uncommittedEventNames cl =
     (let eventName = getEventClassName cl;
          occuredCount = occurances uncommittedEventNames eventName
      in if occuredCount \<noteq> 0
         then Some (throwError col
                (''Event '' @ quoted eventName @ '' was found in the aggregate event stream.'')
                (decimal occuredCount) ''0'')
         else None)"

definition check_exactly :: "colors \<Rightarrow> string list \<Rightarrow> int \<Rightarrow> EventClass \<Rightarrow> thrown option" where
  "check_exactly col uncommittedEventNames expectation cl =
     (let eventName = getEventClassName cl;
          eventCount = occurances uncommittedEventNames eventName
      in if int eventCount \<noteq> expectation
         then Some (throwError col
                (''Event '' @ quoted eventName @ '' did not match exact event count in the aggregate stream.'')
                (decimal eventCount) (number_to_string expectation))
         else None)"

definition check_one :: "colors \<Rightarrow> string list \<Rightarrow> EventClass \<Rightarrow> thrown option" where
  "check_one col uncommittedEventNames cl =
     (let eventName = getEventClassName cl;
          eventCount = occurances uncommittedEventNames eventName
      in if eventCount < 1
         then Some (throwError col
                (''Event '' @ quoted eventName @ '' was not found in the aggregate event stream.'')
                (decimal eventCount) ''1'')
         else if eventCount > 1
         then Some (throwError col
                (''Event '' @ quoted eventName @ '' occurs more than once in the aggregate event stream.'')
                (decimal eventCount) ''1'')
         else None)"

definition check_first :: "colors \<Rightarrow> string \<Rightarrow> EventClass \<Rightarrow> thrown option" where
  "check_first col firstUncommittedEventName cl =
     (let eventName = getEventClassName cl
      in if firstUncommittedEventName \<noteq> eventName
         then Some (throwError col
                (''Event '' @ quoted eventName @ '' is not the first event in the aggregate event stream.'')
                eventName firstUncommittedEventName)
         else None)"

definition check_last :: "colors \<Rightarrow> string \<Rightarrow> EventClass \<Rightarrow> thrown option" where
  "check_last col lastUncommittedEventName cl =
     (let eventName = getEventClassName cl
      in if lastUncommittedEventName \<noteq> eventName
         then Some (throwError col
                (''Event '' @ quoted eventName @ '' is not the last event in the aggregate event stream.'')
                eventName lastUncommittedEventName)
         else None)"

definition check_has :: "colors \<Rightarrow> string list \<Rightarrow> EventClass \<Rightarrow> thrown option" where
  "check_has col uncommittedEventNames cl =
     (let eventName = getEventClassName cl;
          eventCount = occurances uncommittedEventNames eventName
      in if eventCount = 0
         then Some (throwError col
                (''Event '' @ quoted eventName @ '' did not match any events in the aggregate stream.'')
                [] [])
         else None)"

text \<open>
  \<open>assertEvent\<close>. The reads of the first and of the last uncommitted event stand behind
  the check that the buffer is not empty.
\<close>

definition assertEvent :: "colors \<Rightarrow> ('s, 'h) chain \<Rightarrow> thrown option" where
  "assertEvent col c =
     (let uncommittedEvents = getUncommittedEvents (aggregate c);
          uncommittedEventNames = map getEventProtoName uncommittedEvents
      in
      if uncommittedEvents = []
      then Some (throwError col ''There are no events in the aggregate event stream to evaluate.''
             (decimal (length uncommittedEvents)) ''1 or more'')
      else if ''excludes'' \<in> set (flags c)
      then forEach (check_excludes col uncommittedEventNames) (events c)
      else in_sequence
        [ if ''exactly'' \<in> set (flags c)
          then forEach (check_exactly col uncommittedEventNames (occuranceExpectation c)) (events c)
          else None,
          if ''one'' \<in> set (flags c)
          then forEach (check_one col uncommittedEventNames) (events c)
          else None,
          if ''first'' \<in> set (flags c)
          then forEach (check_first col (getEventProtoName (hd uncommittedEvents))) (events c)
          else None,
          if ''last'' \<in> set (flags c)
          then forEach (check_last col (getEventProtoName (last uncommittedEvents))) (events c)
          else None,
          if ''has'' \<in> set (flags c) \<and> ''one'' \<notin> set (flags c) \<and> ''exactly'' \<notin> set (flags c)
          then forEach (check_has col uncommittedEventNames) (events c)
          else None ])"

text \<open>
  \<open>assertEventParams\<close>: the check of one property of one event, for the last event of the
  buffer and for any event of the buffer, and the function itself.
\<close>

definition check_prop_last ::
  "colors \<Rightarrow> matcher \<Rightarrow> (string \<times> jsval) list \<Rightarrow> string \<Rightarrow> string \<Rightarrow> IEvent \<Rightarrow> string \<Rightarrow> thrown option" where
  "check_prop_last col contain params eventName lastUncommittedEventName lastUncommittedEvent prop =
     (let have = get_prop (props lastUncommittedEvent) prop;
          want = get_prop params prop
      in if isArray have \<and> isArray want
         then (if contain have want then None
               else Some (throwError col
                      (''No property '' @ quoted prop @ '' does not match required list'')
                      (prop @ '' - '' @ to_string have) (prop @ '' - '' @ to_string want)))
         else if \<not> strict_eq have want
         then Some (throwError col
                (''No matching property found on last event '' @ quoted eventName
                   @ '' for property '' @ quoted prop @ '' with last aggregate event ''
                   @ quoted lastUncommittedEventName)
                (prop @ '' - '' @ to_string have) (prop @ '' - '' @ to_string want))
         else None)"

definition check_prop ::
  "colors \<Rightarrow> matcher \<Rightarrow> (string \<times> jsval) list \<Rightarrow> string \<Rightarrow> IEvent \<Rightarrow> string \<Rightarrow> thrown option" where
  "check_prop col contain params eventName uncommittedEvent prop =
     (let have = get_prop (props uncommittedEvent) prop;
          want = get_prop params prop
      in if isArray have \<and> isArray want
         then (if contain have want then None
               else Some (throwError col
                      (''No property '' @ quoted prop @ '' does not match required list'')
                      (prop @ '' - '' @ to_string have) (prop @ '' - '' @ to_string want)))
         else if \<not> strict_eq have want
         then Some (throwError col
                (''No matching property found on event '' @ quoted eventName
                   @ '' for property '' @ quoted prop)
                (prop @ '' - '' @ to_string have) (prop @ '' - '' @ to_string want))
         else None)"

definition check_event_params ::
  "colors \<Rightarrow> matcher \<Rightarrow> (string \<times> jsval) list \<Rightarrow> IEvent list \<Rightarrow> EventClass \<Rightarrow> thrown option" where
  "check_event_params col contain params uncommittedEvents cl =
     (let eventName = getEventClassName cl
      in forEach (\<lambda>uncommittedEvent.
            let lastUncommittedEventName = getEventProtoName uncommittedEvent
            in if eventName = lastUncommittedEventName
               then forEach (check_prop col contain params eventName uncommittedEvent) (map fst params)
               else None)
          uncommittedEvents)"

definition assertEventParams ::
  "colors \<Rightarrow> matcher \<Rightarrow> ('s, 'h) chain \<Rightarrow> (string \<times> jsval) list \<Rightarrow> thrown option" where
  "assertEventParams col contain c params =
     (if events c = []
      then Some (throwError col ''No events listed - cannot assert event includes params'' [] [])
      else
        let uncommittedEvents = getUncommittedEvents (aggregate c)
        in if ''last'' \<in> set (flags c)
           then (let eventName = getEventClassName (last (events c))
                 in if uncommittedEvents = []
                    then Some (Error ''Cannot convert undefined or null to object'' None None)
                    else let lastUncommittedEvent = last uncommittedEvents;
                             lastUncommittedEventName = getEventProtoName lastUncommittedEvent
                         in forEach (check_prop_last col contain params eventName
                                       lastUncommittedEventName lastUncommittedEvent)
                              (map fst params))
           else forEach (check_event_params col contain params uncommittedEvents) (events c))"

text \<open>
  \<open>assertWhen\<close> is an \<open>async\<close> function: it raises nothing to its caller, and what its body
  raises rejects the promise it returns. The result here is how that promise settles
  (\<open>Some err\<close>: rejected with \<open>err\<close>) and the aggregate the callback left. A callback stands
  for its completion, called plainly or awaited.
\<close>

definition assertWhen ::
  "colors \<Rightarrow> (string \<Rightarrow> string) \<Rightarrow> ('s, 'h) callback \<Rightarrow> ('s, 'h) chain \<Rightarrow> thrown option \<times> ('s, 'h) AggregateRoot" where
  "assertWhen col lc fn c =
     (let (raised, a) = fn (aggregate c)
      in if ''throws'' \<in> set (flags c)
         then (case raised of
                 Some err \<Rightarrow>
                   (let errMessage = (case err of Error m act exp \<Rightarrow> m | NonError v \<Rightarrow> []);
                        left = toLowerCase lc errMessage;
                        right = toLowerCase lc (case withMessage c of None \<Rightarrow> ''undefined'' | Some m \<Rightarrow> m)
                    in case withMessage c of
                         None \<Rightarrow> (None, a)
                       | Some m \<Rightarrow>
                           if m \<noteq> [] \<and> \<not> str_includes left right
                           then (Some (throwError col ''Expected error message did not match'' errMessage m), a)
                           else (None, a))
               | None \<Rightarrow> (Some (throwError col ''Failed to throw error for aggregate method'' [] []), a))
         else (raised, a))"

text \<open>
  The methods and getters of the \<open>api\<close> object. \<open>Inl err\<close>: the call raised \<open>err\<close> to its
  caller, or, for \<open>after\<close>, the promise it returned is rejected with \<open>err\<close>. \<open>when\<close> does not
  await the promise of \<open>assertWhen\<close>.
\<close>

datatype ('s, 'h) call =
    Loads event_array
  | When "('s, 'h) callback"
  | After "('s, 'h) callback list"
  | With string
  | Event EventClass
  | Events "EventClass list"
  | Includes "(string \<times> jsval) list"
  | Exactly int
  | Debug
  | Throws
  | Has
  | First
  | Last
  | One
  | Excludes
  | And
  | That
  | It

fun after_loop ::
  "colors \<Rightarrow> (string \<Rightarrow> string) \<Rightarrow> ('s, 'h) callback list \<Rightarrow> ('s, 'h) chain \<Rightarrow> thrown + ('s, 'h) chain" where
  "after_loop col lc [] c = Inr c"
| "after_loop col lc (func # fnList) c =
     (case assertWhen col lc func c of
        (Some err, a) \<Rightarrow> Inl err
      | (None, a) \<Rightarrow> after_loop col lc fnList (c\<lparr>aggregate := a\<rparr>))"

definition push_flag :: "string \<Rightarrow> ('s, 'h) chain \<Rightarrow> ('s, 'h) chain" where
  "push_flag f c = c\<lparr>flags := flags c @ [f]\<rparr>"

fun api ::
  "colors \<Rightarrow> (string \<Rightarrow> string) \<Rightarrow> matcher \<Rightarrow> ('s, 'h) aggregate_class \<Rightarrow> ('s, 'h) chain \<Rightarrow> ('s, 'h) call \<Rightarrow> thrown + ('s, 'h) chain" where
  "api col lc contain cls c (Loads eventStream) =
     (case loadFromHistory cls eventStream (aggregate c) of
        (Some err, a) \<Rightarrow> Inl err
      | (None, a) \<Rightarrow> Inr (c\<lparr>aggregate := a\<rparr>))"
| "api col lc contain cls c (When fn) =
     (let (promise, a) = assertWhen col lc fn c in Inr (c\<lparr>aggregate := a\<rparr>))"
| "api col lc contain cls c (After fnList) = after_loop col lc fnList c"
| "api col lc contain cls c (With v) = Inr (c\<lparr>withMessage := Some v\<rparr>)"
| "api col lc contain cls c (Event cl) =
     (let c1 = addEvents [cl] c
      in case assertEvent col c1 of Some err \<Rightarrow> Inl err | None \<Rightarrow> Inr c1)"
| "api col lc contain cls c (Events cls') =
     (let c1 = addEvents cls' c
      in case assertEvent col c1 of Some err \<Rightarrow> Inl err | None \<Rightarrow> Inr c1)"
| "api col lc contain cls c (Includes params) =
     (case assertEventParams col contain c params of Some err \<Rightarrow> Inl err | None \<Rightarrow> Inr c)"
| "api col lc contain cls c (Exactly n) = Inr ((push_flag ''exactly'' c)\<lparr>occuranceExpectation := n\<rparr>)"
| "api col lc contain cls c Debug = Inr (push_flag ''debug'' c)"
| "api col lc contain cls c Throws = Inr (push_flag ''throws'' c)"
| "api col lc contain cls c Has = Inr (push_flag ''has'' c)"
| "api col lc contain cls c First = Inr (push_flag ''first'' c)"
| "api col lc contain cls c Last = Inr (push_flag ''last'' c)"
| "api col lc contain cls c One = Inr (push_flag ''one'' c)"
| "api col lc contain cls c Excludes = Inr (push_flag ''excludes'' c)"
| "api col lc contain cls c And = Inr (check (aggregate c))"
| "api col lc contain cls c That = Inr c"
| "api col lc contain cls c It = Inr c"

definition getAggregate :: "('s, 'h) chain \<Rightarrow> ('s, 'h) AggregateRoot" where
  "getAggregate c = aggregate c"

text \<open>A chain of calls on \<open>check(aggregate)\<close>, each on the result of the one before; a raise ends it.\<close>

fun chained ::
  "colors \<Rightarrow> (string \<Rightarrow> string) \<Rightarrow> matcher \<Rightarrow> ('s, 'h) aggregate_class \<Rightarrow> ('s, 'h) call list \<Rightarrow> ('s, 'h) chain \<Rightarrow> thrown + ('s, 'h) chain" where
  "chained col lc contain cls [] c = Inr c"
| "chained col lc contain cls (k # calls) c =
     (case api col lc contain cls c k of
        Inl err \<Rightarrow> Inl err
      | Inr c1 \<Rightarrow> chained col lc contain cls calls c1)"

text \<open>A callback that applies one event, and one that raises an \<open>Error\<close> with a message.\<close>

definition applies :: "('s, 'h) aggregate_class \<Rightarrow> IEvent \<Rightarrow> ('s, 'h) callback" where
  "applies cls ev a = apply' cls ev False a"

definition raises :: "string \<Rightarrow> ('s, 'h) callback" where
  "raises m a = (Some (Error m None None), a)"

definition plain_colors :: colors where
  "plain_colors = \<lparr> red = (\<lambda>s. s), green = (\<lambda>s. s) \<rparr>"


text \<open>A matcher for the examples: every expected element is an element of the array.\<close>

fun elements_contained :: matcher where
  "elements_contained (Arr r xs) (Arr r' ys) = (ys \<noteq> [] \<and> list_all (\<lambda>y. list_ex (\<lambda>x. strict_eq x y) xs) ys)"
| "elements_contained have want = False"

subsection \<open>Examples used to instantiate the theorems\<close>

text \<open>A lower-casing that leaves strings beyond ASCII as they are; the examples hold no such string.\<close>

definition no_folding :: "string \<Rightarrow> string" where
  "no_folding s = s"

text \<open>An aggregate that counts the \<open>Counted\<close> events dispatched to it.\<close>

definition counting :: "(nat, unit) aggregate_class" where
  "counting n =
     (if n = ''onCounted'' then Some (Method (\<lambda>ev this. (None, this\<lparr>state := Suc (state this)\<rparr>)))
      else None)"

definition node_of :: "IEvent \<Rightarrow> int \<Rightarrow> IEventNode" where
  "node_of ev i = \<lparr> event = ev, metadata = \<lparr> node_id = ''n'', index = i \<rparr> \<rparr>"

text \<open>
  The plain \<open>AggregateRoot\<close> of the toolkit's tests, which declares no handler.
\<close>

definition plain_AggregateRoot :: "(unit, unit) aggregate_class" where
  "plain_AggregateRoot n = None"

text \<open>
  An aggregate whose \<open>onPlaced\<close> calls \<open>this.apply(new Audited())\<close>, and one whose \<open>onBroken\<close>
  raises. Neither declares another handler, so the \<open>apply\<close> inside \<open>onPlaced\<close> is the
  \<open>apply\<close> of a class with no handler.
\<close>

definition auditing :: "(unit, unit) aggregate_class" where
  "auditing n =
     (if n = ''onPlaced''
      then Some (Method (\<lambda>ev this. apply' plain_AggregateRoot (plain_event ''Audited'') False this))
      else None)"

definition breaking :: "(unit, unit) aggregate_class" where
  "breaking n =
     (if n = ''onBroken'' then Some (Method (\<lambda>ev this. (Some (Error ''broken'' None None), this)))
      else None)"

text \<open>
  Failure handlers over a world that counts the locks held: the handler of the README,
  which unlocks and raises the error again, and one that only unlocks.
\<close>

datatype lock_handler = Unlock_and_rethrow | Unlock_only

fun lock_handlers :: "lock_handler \<Rightarrow> (unit, lock_handler, nat) IAggregateFailureHandler" where
  "lock_handlers Unlock_and_rethrow error (this, locks) = (Some error, this, locks - 1)"
| "lock_handlers Unlock_only error (this, locks) = (None, this, locks - 1)"

text \<open>Failure handlers that do nothing.\<close>

definition ignoring :: "unit \<Rightarrow> ('s, unit, unit) IAggregateFailureHandler" where
  "ignoring h error s = (None, s)"

text \<open>
  The aggregate the toolkit's tests build: \<open>First\<close>, \<open>Middle\<close> and \<open>Last\<close> applied in this
  order.
\<close>

definition first_middle_last :: "(unit, unit) AggregateRoot" where
  "first_middle_last =
     snd (apply' plain_AggregateRoot (plain_event ''Last'') False
       (snd (apply' plain_AggregateRoot (plain_event ''Middle'') False
          (snd (apply' plain_AggregateRoot (plain_event ''First'') False (new_AggregateRoot ''a1'' ()))))))"






section \<open>Properties of the aggregate root\<close>

lemma getEventHandler_Some:
  "getEventHandler cls ev = Some m \<Longrightarrow> cls (''on'' @ constructor_name ev) = Some (Method m)"
  by (auto simp add: getEventHandler_def getEventName_def Let_def split: option.splits member.splits)

lemma apply'_no_handler:
  "getEventHandler cls ev = None \<Longrightarrow>
     apply' cls ev isFromHistory this
       = (None, if isFromHistory then this else this\<lparr>INTERNAL_EVENTS := INTERNAL_EVENTS this @ [ev]\<rparr>)"
  by (simp add: apply'_def)

lemma apply'_handler:
  "getEventHandler cls ev = Some m \<Longrightarrow>
     apply' cls ev isFromHistory this
       = m ev (if isFromHistory then this else this\<lparr>INTERNAL_EVENTS := INTERNAL_EVENTS this @ [ev]\<rparr>)"
  by (simp add: apply'_def)

lemma apply'_returns:
  assumes "handlers_return cls"
  shows "fst (apply' cls ev isFromHistory this) = None"
proof (cases "getEventHandler cls ev")
  case None
  then show ?thesis by (simp add: apply'_no_handler)
next
  case (Some m)
  from getEventHandler_Some [OF Some] assms have "fst (m ev t) = None" for t
    unfolding handlers_return_def by blast
  then show ?thesis by (simp add: apply'_handler [OF Some])
qed

lemma apply'_buffer:
  assumes "handlers_keep INTERNAL_EVENTS cls"
  shows "INTERNAL_EVENTS (snd (apply' cls ev isFromHistory this))
           = (if isFromHistory then INTERNAL_EVENTS this else INTERNAL_EVENTS this @ [ev])"
proof (cases "getEventHandler cls ev")
  case None
  then show ?thesis by (simp add: apply'_no_handler)
next
  case (Some m)
  from getEventHandler_Some [OF Some] assms
  have "INTERNAL_EVENTS (snd (m ev t)) = INTERNAL_EVENTS t" for t
    unfolding handlers_keep_def by blast
  then show ?thesis by (simp add: apply'_handler [OF Some])
qed

lemma apply'_history:
  assumes "handlers_keep INTERNAL_EVENTS_HISTORY cls"
  shows "INTERNAL_EVENTS_HISTORY (snd (apply' cls ev isFromHistory this)) = INTERNAL_EVENTS_HISTORY this"
proof (cases "getEventHandler cls ev")
  case None
  then show ?thesis by (simp add: apply'_no_handler)
next
  case (Some m)
  from getEventHandler_Some [OF Some] assms
  have "INTERNAL_EVENTS_HISTORY (snd (m ev t)) = INTERNAL_EVENTS_HISTORY t" for t
    unfolding handlers_keep_def by blast
  then show ?thesis by (simp add: apply'_handler [OF Some])
qed

lemma apply'_nodes:
  assumes "handlers_keep INTERNAL_EVENTS_NODES_HISTORY cls"
  shows "INTERNAL_EVENTS_NODES_HISTORY (snd (apply' cls ev isFromHistory this))
           = INTERNAL_EVENTS_NODES_HISTORY this"
proof (cases "getEventHandler cls ev")
  case None
  then show ?thesis by (simp add: apply'_no_handler)
next
  case (Some m)
  from getEventHandler_Some [OF Some] assms
  have "INTERNAL_EVENTS_NODES_HISTORY (snd (m ev t)) = INTERNAL_EVENTS_NODES_HISTORY t" for t
    unfolding handlers_keep_def by blast
  then show ?thesis by (simp add: apply'_handler [OF Some])
qed

subsection \<open>The loops\<close>

lemma forEach_from_keeps:
  assumes "\<And>x t. g (snd (f x t)) = g t"
  shows "g (snd (forEach_from read f k n this)) = g this"
proof (induction n arbitrary: k this)
  case 0
  show ?case by simp
next
  case (Suc n)
  show ?case
  proof (cases "k < length (read this)")
    case False
    then show ?thesis by (simp add: Suc.IH)
  next
    case True
    obtain r t where r: "f (read this ! k) this = (r, t)" by (cases "f (read this ! k) this")
    have t: "g t = g this" using assms [of "read this ! k" this] r by simp
    show ?thesis
      using True r t by (cases r) (simp_all add: Suc.IH)
  qed
qed

lemma forEach_from_prefix:
  assumes "\<And>x t. prefix (g t) (g (snd (f x t)))"
  shows "prefix (g this) (g (snd (forEach_from read f k n this)))"
proof (induction n arbitrary: k this)
  case 0
  show ?case by simp
next
  case (Suc n)
  show ?case
  proof (cases "k < length (read this)")
    case False
    then show ?thesis by (simp add: Suc.IH)
  next
    case True
    obtain r t where r: "f (read this ! k) this = (r, t)" by (cases "f (read this ! k) this")
    have t: "prefix (g this) (g t)" using assms [of this "read this ! k"] r by simp
    show ?thesis
    proof (cases r)
      case None
      have "prefix (g t) (g (snd (forEach_from read f (Suc k) n t)))" by (rule Suc.IH)
      with t have "prefix (g this) (g (snd (forEach_from read f (Suc k) n t)))"
        by (rule prefix_order.trans)
      then show ?thesis using True r None by simp
    next
      case (Some err)
      then show ?thesis using True r t by simp
    qed
  qed
qed

lemma forEach_from_stable:
  assumes step: "\<And>x t. take len (read t) = xs \<Longrightarrow>
                   fst (f x t) = None \<and> take len (read (snd (f x t))) = xs"
    and "take len (read this) = xs" and "length xs = len" and "k + n = len"
  shows "forEach_from read f k n this = (None, fold (\<lambda>x t. snd (f x t)) (drop k xs) this)"
  using assms(2,4)
proof (induction n arbitrary: k this)
  case 0
  then show ?case using assms(3) by simp
next
  case (Suc n)
  have k: "k < len" using Suc.prems(2) by simp
  have "length (take len (read this)) = len"
    using Suc.prems(1) assms(3) by simp
  then have len: "len \<le> length (read this)" by simp
  have elem: "read this ! k = xs ! k"
    using Suc.prems(1) k by (metis nth_take)
  obtain r t where r: "f (xs ! k) this = (r, t)" by (cases "f (xs ! k) this")
  from step [OF Suc.prems(1), of "xs ! k"] r have none: "r = None" and inv: "take len (read t) = xs"
    by simp_all
  have "forEach_from read f (Suc k) n t = (None, fold (\<lambda>x t. snd (f x t)) (drop (Suc k) xs) t)"
    using inv Suc.prems(2) by (intro Suc.IH) simp_all
  moreover have "drop k xs = xs ! k # drop (Suc k) xs"
    using k assms(3) by (simp add: Cons_nth_drop_Suc)
  ultimately show ?case
    using k len elem r none by simp
qed

lemma forEach_array_stable:
  assumes "\<And>x t. take (length (read this)) (read t) = read this \<Longrightarrow>
             fst (f x t) = None \<and> take (length (read this)) (read (snd (f x t))) = read this"
  shows "forEach_array read f this = (None, fold (\<lambda>x t. snd (f x t)) (read this) this)"
  unfolding forEach_array_def
  using forEach_from_stable [where read = read and f = f and len = "length (read this)"
          and xs = "read this" and this = this and k = 0 and n = "length (read this)", OF assms]
  by simp


subsection \<open>The callbacks of the loops\<close>

lemma history_step_returns:
  assumes "handlers_return cls"
  shows "history_step cls ev this = (None, replay_step cls (Inr ev) this)"
proof -
  obtain r t where r: "apply' cls ev True this = (r, t)" by (cases "apply' cls ev True this")
  with apply'_returns [OF assms, of ev True this] have "r = None" by simp
  with r show ?thesis by (simp add: history_step_def)
qed

lemma node_step_returns:
  assumes "handlers_return cls"
  shows "node_step cls node this = (None, replay_step cls (Inl node) this)"
proof -
  obtain r t where r: "apply' cls (event node) True this = (r, t)"
    by (cases "apply' cls (event node) True this")
  with apply'_returns [OF assms, of "event node" True this] have "r = None" by simp
  with r show ?thesis by (simp add: node_step_def)
qed

lemma history_step_buffer:
  assumes "handlers_keep INTERNAL_EVENTS cls"
  shows "INTERNAL_EVENTS (snd (history_step cls ev this)) = INTERNAL_EVENTS this"
proof -
  obtain r t where r: "apply' cls ev True this = (r, t)" by (cases "apply' cls ev True this")
  with apply'_buffer [OF assms, of ev True this] have "INTERNAL_EVENTS t = INTERNAL_EVENTS this" by simp
  with r show ?thesis by (cases r) (simp_all add: history_step_def)
qed

lemma node_step_buffer:
  assumes "handlers_keep INTERNAL_EVENTS cls"
  shows "INTERNAL_EVENTS (snd (node_step cls node this)) = INTERNAL_EVENTS this"
proof -
  obtain r t where r: "apply' cls (event node) True this = (r, t)"
    by (cases "apply' cls (event node) True this")
  with apply'_buffer [OF assms, of "event node" True this]
  have "INTERNAL_EVENTS t = INTERNAL_EVENTS this" by simp
  with r show ?thesis by (cases r) (simp_all add: node_step_def)
qed

lemma history_step_history:
  assumes "handlers_keep INTERNAL_EVENTS_HISTORY cls"
  shows "prefix (INTERNAL_EVENTS_HISTORY this) (INTERNAL_EVENTS_HISTORY (snd (history_step cls ev this)))"
proof -
  obtain r t where r: "apply' cls ev True this = (r, t)" by (cases "apply' cls ev True this")
  with apply'_history [OF assms, of ev True this]
  have "INTERNAL_EVENTS_HISTORY t = INTERNAL_EVENTS_HISTORY this" by simp
  with r show ?thesis by (cases r) (simp_all add: history_step_def)
qed

lemma node_step_history:
  assumes "handlers_keep INTERNAL_EVENTS_HISTORY cls"
  shows "INTERNAL_EVENTS_HISTORY (snd (node_step cls node this)) = INTERNAL_EVENTS_HISTORY this"
proof -
  obtain r t where r: "apply' cls (event node) True this = (r, t)"
    by (cases "apply' cls (event node) True this")
  with apply'_history [OF assms, of "event node" True this]
  have "INTERNAL_EVENTS_HISTORY t = INTERNAL_EVENTS_HISTORY this" by simp
  with r show ?thesis by (cases r) (simp_all add: node_step_def)
qed

lemma replay_step_fields:
  "handlers_keep INTERNAL_EVENTS cls \<Longrightarrow>
     INTERNAL_EVENTS (replay_step cls step this) = INTERNAL_EVENTS this"
  "handlers_keep INTERNAL_EVENTS_HISTORY cls \<Longrightarrow>
     INTERNAL_EVENTS_HISTORY (replay_step cls step this)
       = INTERNAL_EVENTS_HISTORY this @ (case step of Inl node \<Rightarrow> [] | Inr ev \<Rightarrow> [ev])"
  "handlers_keep INTERNAL_EVENTS_NODES_HISTORY cls \<Longrightarrow>
     INTERNAL_EVENTS_NODES_HISTORY (replay_step cls step this)
       = INTERNAL_EVENTS_NODES_HISTORY this @ (case step of Inl node \<Rightarrow> [node] | Inr ev \<Rightarrow> [])"
  by (cases step; simp add: Let_def apply'_buffer apply'_history apply'_nodes)+

lemma fold_replay_fields:
  "handlers_keep INTERNAL_EVENTS cls \<Longrightarrow>
     INTERNAL_EVENTS (fold (replay_step cls) steps this) = INTERNAL_EVENTS this"
  "handlers_keep INTERNAL_EVENTS_HISTORY cls \<Longrightarrow>
     INTERNAL_EVENTS_HISTORY (fold (replay_step cls) steps this)
       = INTERNAL_EVENTS_HISTORY this @ concat (map (\<lambda>step. case step of Inl node \<Rightarrow> [] | Inr ev \<Rightarrow> [ev]) steps)"
  "handlers_keep INTERNAL_EVENTS_NODES_HISTORY cls \<Longrightarrow>
     INTERNAL_EVENTS_NODES_HISTORY (fold (replay_step cls) steps this)
       = INTERNAL_EVENTS_NODES_HISTORY this @ concat (map (\<lambda>step. case step of Inl node \<Rightarrow> [node] | Inr ev \<Rightarrow> []) steps)"
  by (induction steps arbitrary: this; simp del: replay_step.simps add: replay_step_fields)+

lemma concat_singletons [simp]:
  "concat (map (\<lambda>x. [x]) xs) = xs" "concat (map (\<lambda>x. []) xs) = []"
  by (induction xs) simp_all

subsection \<open>loadFromHistory and loadFromEventNodes\<close>

lemma loadFromHistory_buffer:
  assumes "handlers_keep INTERNAL_EVENTS cls"
  shows "INTERNAL_EVENTS (snd (loadFromHistory cls history this)) = INTERNAL_EVENTS this"
  unfolding loadFromHistory_def forEach_array_def
  by (rule forEach_from_keeps) (rule history_step_buffer [OF assms])

lemma loadFromHistory_history_prefix:
  assumes "handlers_keep INTERNAL_EVENTS_HISTORY cls"
  shows "prefix (INTERNAL_EVENTS_HISTORY this)
           (INTERNAL_EVENTS_HISTORY (snd (loadFromHistory cls history this)))"
  unfolding loadFromHistory_def forEach_array_def
  by (rule forEach_from_prefix) (rule history_step_history [OF assms])

lemma loadFromEventNodes_buffer:
  assumes "handlers_keep INTERNAL_EVENTS cls"
  shows "INTERNAL_EVENTS (snd (loadFromEventNodes cls nodes this)) = INTERNAL_EVENTS this"
proof -
  obtain r t where r: "forEach_array (nodes_in nodes) (node_step cls) this = (r, t)"
    by (cases "forEach_array (nodes_in nodes) (node_step cls) this")
  have "INTERNAL_EVENTS (snd (forEach_array (nodes_in nodes) (node_step cls) this)) = INTERNAL_EVENTS this"
    unfolding forEach_array_def
    by (rule forEach_from_keeps) (rule node_step_buffer [OF assms])
  with r have t: "INTERNAL_EVENTS t = INTERNAL_EVENTS this" by simp
  show ?thesis
    using r t by (cases r) (simp_all add: loadFromEventNodes_def loadFromHistory_buffer [OF assms])
qed

lemma loadFromEventNodes_history_prefix:
  assumes "handlers_keep INTERNAL_EVENTS_HISTORY cls"
  shows "prefix (INTERNAL_EVENTS_HISTORY this)
           (INTERNAL_EVENTS_HISTORY (snd (loadFromEventNodes cls nodes this)))"
proof -
  obtain r t where r: "forEach_array (nodes_in nodes) (node_step cls) this = (r, t)"
    by (cases "forEach_array (nodes_in nodes) (node_step cls) this")
  have "INTERNAL_EVENTS_HISTORY (snd (forEach_array (nodes_in nodes) (node_step cls) this))
          = INTERNAL_EVENTS_HISTORY this"
    unfolding forEach_array_def
    by (rule forEach_from_keeps) (rule node_step_history [OF assms])
  with r have t: "INTERNAL_EVENTS_HISTORY t = INTERNAL_EVENTS_HISTORY this" by simp
  show ?thesis
  proof (cases r)
    case None
    have "prefix (INTERNAL_EVENTS_HISTORY t)
            (INTERNAL_EVENTS_HISTORY (snd (loadFromHistory cls (Given_events (map event (nodes_in nodes t))) t)))"
      by (rule loadFromHistory_history_prefix [OF assms])
    then show ?thesis using r t None by (simp add: loadFromEventNodes_def)
  next
    case (Some err)
    then show ?thesis using r t by (simp add: loadFromEventNodes_def)
  qed
qed

lemma fold_history_steps:
  assumes "handlers_return cls"
  shows "fold (\<lambda>x t. snd (history_step cls x t)) xs this = fold (replay_step cls) (map Inr xs) this"
  by (induction xs arbitrary: this) (simp_all add: history_step_returns [OF assms])

lemma fold_node_steps:
  assumes "handlers_return cls"
  shows "fold (\<lambda>x t. snd (node_step cls x t)) xs this = fold (replay_step cls) (map Inl xs) this"
  by (induction xs arbitrary: this) (simp_all add: node_step_returns [OF assms])

lemma loadFromHistory_own_array:
  assumes "handlers_return cls"
  shows "loadFromHistory cls (Given_events xs) this = (None, fold (replay_step cls) (map Inr xs) this)"
proof -
  have "forEach_array (events_in (Given_events xs)) (history_step cls) this
          = (None, fold (\<lambda>x t. snd (history_step cls x t)) (events_in (Given_events xs) this) this)"
    by (rule forEach_array_stable) (simp add: history_step_returns [OF assms])
  then show ?thesis
    by (simp add: loadFromHistory_def fold_history_steps [OF assms])
qed

lemma loadFromHistory_any_array:
  assumes "handlers_return cls" and "handlers_keep INTERNAL_EVENTS cls"
    and "handlers_keep INTERNAL_EVENTS_HISTORY cls"
  shows "loadFromHistory cls history this
           = (None, fold (replay_step cls) (map Inr (events_in history this)) this)"
proof -
  let ?len = "length (events_in history this)"
  have step: "fst (history_step cls x t) = None
              \<and> take ?len (events_in history (snd (history_step cls x t))) = events_in history this"
    if inv: "take ?len (events_in history t) = events_in history this" for x t
  proof (cases history)
    case (Given_events xs)
    then show ?thesis by (simp add: history_step_returns [OF assms(1)])
  next
    case The_uncommitted_events
    with inv show ?thesis
      by (simp del: replay_step.simps
            add: history_step_returns [OF assms(1)] replay_step_fields(1) [OF assms(2)])
  next
    case The_loaded_events
    from inv have "length (take ?len (events_in history t)) = ?len" by simp
    then have "?len \<le> length (events_in history t)" by simp
    with The_loaded_events inv show ?thesis
      by (simp del: replay_step.simps
            add: history_step_returns [OF assms(1)] replay_step_fields(2) [OF assms(3)])
  qed
  have "forEach_array (events_in history) (history_step cls) this
          = (None, fold (\<lambda>x t. snd (history_step cls x t)) (events_in history this) this)"
    by (rule forEach_array_stable) (rule step)
  then show ?thesis
    by (simp add: loadFromHistory_def fold_history_steps [OF assms(1)])
qed

lemma loadFromEventNodes_own_array:
  assumes "handlers_return cls"
  shows "loadFromEventNodes cls (Given_nodes nodes) this
           = (None, fold (replay_step cls) (map Inl nodes @ map (Inr \<circ> event) nodes) this)"
proof -
  have "forEach_array (nodes_in (Given_nodes nodes)) (node_step cls) this
          = (None, fold (\<lambda>x t. snd (node_step cls x t)) (nodes_in (Given_nodes nodes) this) this)"
    by (rule forEach_array_stable) (simp add: node_step_returns [OF assms])
  then show ?thesis
    by (simp add: loadFromEventNodes_def fold_node_steps [OF assms]
          loadFromHistory_own_array [OF assms])
qed

lemma TestAggregate_keeps [simp]:
  "handlers_keep INTERNAL_EVENTS TestAggregate"
  "handlers_keep INTERNAL_EVENTS_HISTORY TestAggregate"
  "handlers_keep INTERNAL_EVENTS_NODES_HISTORY TestAggregate"
  "handlers_return TestAggregate"
  by (simp_all add: handlers_keep_def handlers_return_def TestAggregate_def onCreated_def)

lemma counting_behaves [simp]:
  "handlers_keep INTERNAL_EVENTS counting"
  "handlers_keep INTERNAL_EVENTS_HISTORY counting"
  "handlers_keep INTERNAL_EVENTS_NODES_HISTORY counting"
  "handlers_return counting"
  "reads_state_only counting"
  by (simp_all add: handlers_keep_def handlers_return_def reads_state_only_def counting_def)

lemma lock_handlers_keep [simp]:
  "failure_handlers_keep g lock_handlers"
  unfolding failure_handlers_keep_def
proof (intro allI)
  fix h error w and this :: "(unit, lock_handler) AggregateRoot"
  show "g (fst (snd (lock_handlers h error (this, w)))) = g this"
    by (cases h) simp_all
qed

lemma ignoring_keeps [simp]: "failure_handlers_keep g ignoring"
  by (simp add: failure_handlers_keep_def ignoring_def)

text \<open>
  Claim C1. \<open>apply(e)\<close> appends \<open>e\<close> to the uncommitted events and then calls the method
  named \<open>on\<close> followed by the name of \<open>e\<close>'s type, when the class has a callable member of
  exactly that name: the call is the handler run on the aggregate that already holds \<open>e\<close>
  in its buffer, and what it raises \<open>apply\<close> raises. With no such method \<open>apply\<close> raises
  nothing, the event is recorded and nothing else changes, the state included. From
  history, \<open>apply(e, true)\<close> is the handler run on the aggregate as it was, with nothing
  appended, and with no handler it changes nothing at all. So with handlers that leave the
  buffer alone, the buffer after \<open>apply(e)\<close> is the old one followed by \<open>e\<close>, and after
  \<open>apply(e, true)\<close> the old one.
\<close>

theorem apply_records_then_dispatches:
  "(\<forall>m. cls (''on'' @ constructor_name ev) = Some (Method m) \<longrightarrow>
        apply' cls ev False this = m ev (this\<lparr>INTERNAL_EVENTS := INTERNAL_EVENTS this @ [ev]\<rparr>)
      \<and> apply' cls ev True this = m ev this)
   \<and> ((\<forall>m. cls (''on'' @ constructor_name ev) \<noteq> Some (Method m)) \<longrightarrow>
        apply' cls ev False this = (None, this\<lparr>INTERNAL_EVENTS := INTERNAL_EVENTS this @ [ev]\<rparr>)
      \<and> getUncommittedEvents (snd (apply' cls ev False this)) = getUncommittedEvents this @ [ev]
      \<and> getState (snd (apply' cls ev False this)) = getState this
      \<and> apply' cls ev True this = (None, this))
   \<and> (handlers_keep INTERNAL_EVENTS cls \<longrightarrow>
        getUncommittedEvents (snd (apply' cls ev False this)) = getUncommittedEvents this @ [ev]
      \<and> getUncommittedEvents (snd (apply' cls ev True this)) = getUncommittedEvents this)"
proof (intro conjI allI impI)
  fix m assume m: "cls (''on'' @ constructor_name ev) = Some (Method m)"
  then have h: "getEventHandler cls ev = Some m"
    by (simp add: getEventHandler_def getEventName_def)
  show "apply' cls ev False this = m ev (this\<lparr>INTERNAL_EVENTS := INTERNAL_EVENTS this @ [ev]\<rparr>)"
    by (simp add: apply'_handler [OF h])
  show "apply' cls ev True this = m ev this"
    by (simp add: apply'_handler [OF h])
next
  assume "\<forall>m. cls (''on'' @ constructor_name ev) \<noteq> Some (Method m)"
  then have h: "getEventHandler cls ev = None"
    by (auto simp add: getEventHandler_def getEventName_def split: option.splits member.splits)
  show "apply' cls ev False this = (None, this\<lparr>INTERNAL_EVENTS := INTERNAL_EVENTS this @ [ev]\<rparr>)"
    by (simp add: apply'_no_handler [OF h])
  show "getUncommittedEvents (snd (apply' cls ev False this)) = getUncommittedEvents this @ [ev]"
    by (simp add: apply'_no_handler [OF h] getUncommittedEvents_def)
  show "getState (snd (apply' cls ev False this)) = getState this"
    by (simp add: apply'_no_handler [OF h] getState_def)
  show "apply' cls ev True this = (None, this)"
    by (simp add: apply'_no_handler [OF h])
next
  assume k: "handlers_keep INTERNAL_EVENTS cls"
  show "getUncommittedEvents (snd (apply' cls ev False this)) = getUncommittedEvents this @ [ev]"
    by (simp add: getUncommittedEvents_def apply'_buffer [OF k])
  show "getUncommittedEvents (snd (apply' cls ev True this)) = getUncommittedEvents this"
    by (simp add: getUncommittedEvents_def apply'_buffer [OF k])
qed

theorem apply_records_then_dispatches_witness:
  "TestAggregate (''on'' @ constructor_name (Created ''id-01'' ''2022-04-11'')) = Some (Method onCreated)
   \<and> getState (snd (apply' TestAggregate (Created ''id-01'' ''2022-04-11'') False
        (new_AggregateRoot ''a1'' [])))
       = [(''id'', Str ''id-01''), (''createdAt'', Str ''2022-04-11'')]
   \<and> length (getUncommittedEvents (snd (apply' TestAggregate (Created ''id-01'' ''2022-04-11'') False
        (new_AggregateRoot ''a1'' [])))) = 1
   \<and> (\<forall>m. TestAggregate
              (''on'' @ constructor_name (plain_event ''Updated'')) \<noteq> Some (Method m))
   \<and> apply' TestAggregate (plain_event ''Updated'') False
        (new_AggregateRoot ''a1'' [])
       = (None, (new_AggregateRoot ''a1'' [])\<lparr>INTERNAL_EVENTS := [plain_event ''Updated'']\<rparr>)
   \<and> apply' TestAggregate (plain_event ''Updated'') True
        (new_AggregateRoot ''a1'' [])
       = (None, new_AggregateRoot ''a1'' [])
   \<and> handlers_keep INTERNAL_EVENTS TestAggregate"
proof -
  let ?a = "new_AggregateRoot ''a1'' [] :: ((string \<times> jsval) list, unit) AggregateRoot"
  let ?c = "Created ''id-01'' ''2022-04-11''"
  let ?u = "plain_event ''Updated''"
  note t1 = apply_records_then_dispatches [of TestAggregate ?c ?a]
  note t2 = apply_records_then_dispatches [of TestAggregate ?u ?a]
  have m: "TestAggregate
             (''on'' @ constructor_name ?c) = Some (Method onCreated)"
    by (simp add: TestAggregate_def Created_def)
  have n: "\<forall>m. TestAggregate
             (''on'' @ constructor_name ?u) \<noteq> Some (Method m)"
    by (simp add: TestAggregate_def plain_event_def)
  have 1: "apply' TestAggregate ?c False ?a = onCreated ?c (?a\<lparr>INTERNAL_EVENTS := INTERNAL_EVENTS ?a @ [?c]\<rparr>)"
    by (rule t1 [THEN conjunct1, THEN spec, THEN mp, OF m, THEN conjunct1])
  note t2' = t2 [THEN conjunct2, THEN conjunct1, THEN mp, OF n]
  have 2: "apply' TestAggregate ?u False ?a = (None, ?a\<lparr>INTERNAL_EVENTS := INTERNAL_EVENTS ?a @ [?u]\<rparr>)"
    by (rule t2' [THEN conjunct1])
  have 3: "apply' TestAggregate ?u True ?a = (None, ?a)"
    by (rule t2' [THEN conjunct2, THEN conjunct2, THEN conjunct2])
  show ?thesis
    unfolding 1 2 3 using m n
    by (simp add: onCreated_def Created_def new_AggregateRoot_def get_prop_def getState_def
          getUncommittedEvents_def)
qed


subsection \<open>The uncommitted buffer\<close>

lemma perform_buffer:
  assumes "handlers_keep INTERNAL_EVENTS cls" and "failure_handlers_keep INTERNAL_EVENTS handlers"
  shows "INTERNAL_EVENTS (fst (perform handlers cls op s)) = spec_buffer op (INTERNAL_EVENTS (fst s))"
proof (cases s)
  case (Pair this w)
  show ?thesis
  proof (cases op)
    case (Op_apply ev h)
    then show ?thesis using Pair by (cases h) (simp_all add: apply'_buffer [OF assms(1)])
  next
    case (Op_loadFromHistory history)
    then show ?thesis using Pair by (simp add: loadFromHistory_buffer [OF assms(1)])
  next
    case (Op_loadFromEventNodes nodes)
    then show ?thesis using Pair by (simp add: loadFromEventNodes_buffer [OF assms(1)])
  next
    case (Op_fail error)
    show ?thesis
    proof (cases "FAILURE_HANDLER this")
      case None
      then show ?thesis using Pair Op_fail by (simp add: fail_def)
    next
      case (Some h)
      from assms(2) have "INTERNAL_EVENTS (fst (snd (handlers h error (this, w)))) = INTERNAL_EVENTS this"
        unfolding failure_handlers_keep_def by blast
      then show ?thesis using Pair Op_fail Some by (simp add: fail_def)
    qed
  qed (simp_all add: Pair commit_def uncommit_def setFailureHandler_def)
qed

lemma perform_all_buffer:
  assumes "handlers_keep INTERNAL_EVENTS cls" and "failure_handlers_keep INTERNAL_EVENTS handlers"
  shows "INTERNAL_EVENTS (fst (perform_all handlers cls ops s)) = fold spec_buffer ops (INTERNAL_EVENTS (fst s))"
  unfolding perform_all_def
  by (induction ops arbitrary: s) (simp_all add: perform_buffer [OF assms])

text \<open>
  Claim C2, as amended. For an aggregate whose event handlers and failure handlers leave
  the uncommitted events as they found them, the buffer after any public operation, and
  so after any sequence of them, is what the specification says: an \<open>apply\<close> that is not
  from history appends its event, \<open>commit\<close> and \<open>uncommit\<close> leave it empty whatever it held,
  and \<open>loadFromHistory\<close>, \<open>loadFromEventNodes\<close>, \<open>snapshot\<close>, \<open>setFailureHandler\<close>, \<open>fail\<close> and
  the getters leave it as it was, whether they return or raise and whatever array they
  are given.
\<close>

theorem uncommitted_buffer_invariant:
  assumes "handlers_keep INTERNAL_EVENTS cls" and "failure_handlers_keep INTERNAL_EVENTS handlers"
  shows "getUncommittedEvents (fst (perform handlers cls op (this, w)))
           = spec_buffer op (getUncommittedEvents this)
       \<and> getUncommittedEvents (fst (perform_all handlers cls ops (this, w)))
           = fold spec_buffer ops (getUncommittedEvents this)
       \<and> getUncommittedEvents (commit this) = []
       \<and> getUncommittedEvents (uncommit this) = []"
  using perform_buffer [OF assms, of op "(this, w)"] perform_all_buffer [OF assms, of ops "(this, w)"]
  by (simp add: getUncommittedEvents_def commit_def uncommit_def)

theorem uncommitted_buffer_invariant_witness:
  "handlers_keep INTERNAL_EVENTS TestAggregate
   \<and> failure_handlers_keep INTERNAL_EVENTS
        (ignoring :: unit \<Rightarrow> ((string \<times> jsval) list, unit, unit) IAggregateFailureHandler)
   \<and> getUncommittedEvents (fst (perform_all ignoring TestAggregate
        [Op_apply (plain_event ''Updated'') False,
         Op_loadFromHistory (Given_events [Created ''id-01'' ''2022-04-11'']),
         Op_loadFromHistory The_uncommitted_events,
         Op_fail (Error ''boom'' None None), Op_apply (Created ''id-02'' ''2022-04-12'') False]
        (new_AggregateRoot ''a1'' [], ())))
       = [plain_event ''Updated'', Created ''id-02'' ''2022-04-12'']
   \<and> getUncommittedEvents (fst (perform_all ignoring TestAggregate
        [Op_apply (plain_event ''Updated'') False, Op_commit, Op_snapshot]
        (new_AggregateRoot ''a1'' [], ()))) = []"
proof -
  have k: "handlers_keep INTERNAL_EVENTS TestAggregate"
    and f: "failure_handlers_keep INTERNAL_EVENTS
              (ignoring :: unit \<Rightarrow> ((string \<times> jsval) list, unit, unit) IAggregateFailureHandler)"
    by simp_all
  note t = uncommitted_buffer_invariant [OF k f, of Op_commit "new_AggregateRoot ''a1'' []" "()"]
  show ?thesis
    using k f
      t [of "[Op_apply (plain_event ''Updated'') False,
              Op_loadFromHistory (Given_events [Created ''id-01'' ''2022-04-11'']),
              Op_loadFromHistory The_uncommitted_events,
              Op_fail (Error ''boom'' None None), Op_apply (Created ''id-02'' ''2022-04-12'') False]"]
      t [of "[Op_apply (plain_event ''Updated'') False, Op_commit, Op_snapshot]"]
    by (simp add: new_AggregateRoot_def getUncommittedEvents_def)
qed

text \<open>
  As first stated, C2 holds of every aggregate. A handler runs with the aggregate: when
  \<open>onPlaced\<close> calls \<open>this.apply(new Audited())\<close>, \<open>loadFromHistory([new Placed()])\<close> leaves
  \<open>Audited\<close> in the buffer of a new aggregate.
\<close>

lemma auditing_applies:
  "apply' auditing (plain_event ''Placed'') isFromHistory this
     = apply' auditing (plain_event ''Audited'') False
         (if isFromHistory then this else this\<lparr>INTERNAL_EVENTS := INTERNAL_EVENTS this @ [plain_event ''Placed'']\<rparr>)"
  by (simp add: apply'_def getEventHandler_def getEventName_def auditing_def plain_AggregateRoot_def
        plain_event_def)

theorem handler_that_applies_fills_the_buffer:
  "getUncommittedEvents (new_AggregateRoot ''a1'' () :: (unit, unit) AggregateRoot) = []
   \<and> getUncommittedEvents (fst (perform ignoring auditing
        (Op_loadFromHistory (Given_events [plain_event ''Placed''])) (new_AggregateRoot ''a1'' (), ())))
       = [plain_event ''Audited'']"
  by (simp add: loadFromHistory_def forEach_array_def history_step_def apply'_def getEventHandler_def
        getEventName_def auditing_def plain_AggregateRoot_def plain_event_def new_AggregateRoot_def
        getUncommittedEvents_def)

subsection \<open>The loaded events\<close>

lemma perform_history:
  assumes "handlers_keep INTERNAL_EVENTS_HISTORY cls"
    and "failure_handlers_keep INTERNAL_EVENTS_HISTORY handlers"
  shows "prefix (INTERNAL_EVENTS_HISTORY (fst s)) (INTERNAL_EVENTS_HISTORY (fst (perform handlers cls op s)))"
proof (cases s)
  case (Pair this w)
  show ?thesis
  proof (cases op)
    case (Op_apply ev h)
    then show ?thesis using Pair by (simp add: apply'_history [OF assms(1)])
  next
    case (Op_loadFromHistory history)
    then show ?thesis using Pair by (simp add: loadFromHistory_history_prefix [OF assms(1)])
  next
    case (Op_loadFromEventNodes nodes)
    then show ?thesis using Pair by (simp add: loadFromEventNodes_history_prefix [OF assms(1)])
  next
    case (Op_fail error)
    show ?thesis
    proof (cases "FAILURE_HANDLER this")
      case None
      then show ?thesis using Pair Op_fail by (simp add: fail_def)
    next
      case (Some h)
      from assms(2)
      have "INTERNAL_EVENTS_HISTORY (fst (snd (handlers h error (this, w)))) = INTERNAL_EVENTS_HISTORY this"
        unfolding failure_handlers_keep_def by blast
      then show ?thesis using Pair Op_fail Some by (simp add: fail_def)
    qed
  qed (simp_all add: Pair commit_def uncommit_def setFailureHandler_def)
qed

lemma perform_all_history:
  assumes "handlers_keep INTERNAL_EVENTS_HISTORY cls"
    and "failure_handlers_keep INTERNAL_EVENTS_HISTORY handlers"
  shows "prefix (INTERNAL_EVENTS_HISTORY (fst s))
           (INTERNAL_EVENTS_HISTORY (fst (perform_all handlers cls ops s)))"
  unfolding perform_all_def
proof (induction ops arbitrary: s)
  case Nil
  show ?case by simp
next
  case (Cons op ops)
  have "prefix (INTERNAL_EVENTS_HISTORY (fst s)) (INTERNAL_EVENTS_HISTORY (fst (perform handlers cls op s)))"
    by (rule perform_history [OF assms])
  also have "prefix \<dots> (INTERNAL_EVENTS_HISTORY (fst (fold (perform handlers cls) ops (perform handlers cls op s))))"
    by (rule Cons.IH)
  finally show ?case by simp
qed

lemma loadFromHistory_result:
  assumes "handlers_return cls" and "handlers_keep INTERNAL_EVENTS cls"
    and "handlers_keep INTERNAL_EVENTS_HISTORY cls"
  shows "fst (loadFromHistory cls history this) = None"
    and "INTERNAL_EVENTS (snd (loadFromHistory cls history this)) = INTERNAL_EVENTS this"
    and "INTERNAL_EVENTS_HISTORY (snd (loadFromHistory cls history this))
           = INTERNAL_EVENTS_HISTORY this @ events_in history this"
  by (simp_all add: loadFromHistory_any_array [OF assms] fold_replay_fields(1) [OF assms(2)]
        fold_replay_fields(2) [OF assms(3)] comp_def)

text \<open>
  Claim C3, as amended. For an aggregate whose handlers return and leave the uncommitted
  and the loaded events as they found them, \<open>loadFromHistory(events)\<close> returns, leaves the
  uncommitted events as they were (so their number too) and appends the events of the
  array, in their order, to the loaded events, which grow by \<open>events.length\<close>; this holds
  also when the array is one the aggregate's getters returned. A second call appends after
  the first, and, when the failure handlers leave the loaded events alone too, no sequence
  of public operations ever takes anything away from them.
\<close>

theorem loadFromHistory_accumulates:
  assumes "handlers_return cls" and "handlers_keep INTERNAL_EVENTS cls"
    and "handlers_keep INTERNAL_EVENTS_HISTORY cls"
  shows "fst (loadFromHistory cls history this) = None
       \<and> getUncommittedEvents (snd (loadFromHistory cls history this)) = getUncommittedEvents this
       \<and> length (getUncommittedEvents (snd (loadFromHistory cls history this)))
           = length (getUncommittedEvents this)
       \<and> getLoadedEvents (snd (loadFromHistory cls history this))
           = getLoadedEvents this @ events_in history this
       \<and> length (getLoadedEvents (snd (loadFromHistory cls history this)))
           = length (getLoadedEvents this) + length (events_in history this)
       \<and> getLoadedEvents (snd (loadFromHistory cls history2 (snd (loadFromHistory cls history this))))
           = getLoadedEvents this @ events_in history this
               @ events_in history2 (snd (loadFromHistory cls history this))
       \<and> (failure_handlers_keep INTERNAL_EVENTS_HISTORY handlers \<longrightarrow>
            prefix (getLoadedEvents this)
              (getLoadedEvents (fst (perform_all handlers cls ops (this, w)))))"
proof (intro conjI impI)
  show "prefix (getLoadedEvents this) (getLoadedEvents (fst (perform_all handlers cls ops (this, w))))"
    if "failure_handlers_keep INTERNAL_EVENTS_HISTORY handlers"
    using perform_all_history [OF assms(3) that, of "(this, w)" ops]
    by (simp add: getLoadedEvents_def)
qed (simp_all add: getUncommittedEvents_def getLoadedEvents_def loadFromHistory_result [OF assms])


theorem loadFromHistory_accumulates_witness:
  "handlers_return TestAggregate \<and> handlers_keep INTERNAL_EVENTS TestAggregate
   \<and> handlers_keep INTERNAL_EVENTS_HISTORY TestAggregate
   \<and> getLoadedEvents (snd (loadFromHistory TestAggregate
        (Given_events [plain_event ''Updated'', plain_event ''Closed''])
        (snd (loadFromHistory TestAggregate (Given_events [Created ''id-01'' ''2022-04-11''])
           (new_AggregateRoot ''a1'' [])))))
       = [Created ''id-01'' ''2022-04-11'', plain_event ''Updated'', plain_event ''Closed'']
   \<and> getLoadedEvents (snd (loadFromHistory TestAggregate The_loaded_events
        (snd (loadFromHistory TestAggregate (Given_events [Created ''id-01'' ''2022-04-11''])
           (new_AggregateRoot ''a1'' [])))))
       = [Created ''id-01'' ''2022-04-11'', Created ''id-01'' ''2022-04-11'']
   \<and> getUncommittedEvents (snd (loadFromHistory TestAggregate (Given_events [Created ''id-01'' ''2022-04-11''])
         (new_AggregateRoot ''a1'' []))) = []"
proof -
  have h: "handlers_return TestAggregate" "handlers_keep INTERNAL_EVENTS TestAggregate"
    "handlers_keep INTERNAL_EVENTS_HISTORY TestAggregate"
    by simp_all
  let ?a = "new_AggregateRoot ''a1'' [] :: ((string \<times> jsval) list, unit) AggregateRoot"
  let ?h1 = "Given_events [Created ''id-01'' ''2022-04-11'']"
  note t = loadFromHistory_accumulates [OF h]
  have 1: "getLoadedEvents (snd (loadFromHistory TestAggregate history2 (snd (loadFromHistory TestAggregate ?h1 ?a))))
             = getLoadedEvents ?a @ events_in ?h1 ?a
                 @ events_in history2 (snd (loadFromHistory TestAggregate ?h1 ?a))" for history2
    by (rule t [THEN conjunct2, THEN conjunct2, THEN conjunct2, THEN conjunct2, THEN conjunct2,
                 THEN conjunct1])
  have 2: "getLoadedEvents (snd (loadFromHistory TestAggregate ?h1 ?a)) = getLoadedEvents ?a @ events_in ?h1 ?a"
    by (rule t [THEN conjunct2, THEN conjunct2, THEN conjunct2, THEN conjunct1])
  have 3: "getUncommittedEvents (snd (loadFromHistory TestAggregate ?h1 ?a)) = getUncommittedEvents ?a"
    by (rule t [THEN conjunct2, THEN conjunct1])
  have 4: "INTERNAL_EVENTS_HISTORY (snd (loadFromHistory TestAggregate ?h1 ?a)) = [Created ''id-01'' ''2022-04-11'']"
    using 2 by (simp add: getLoadedEvents_def new_AggregateRoot_def)
  show ?thesis
    unfolding 1 3 using h 4
    by (simp add: getLoadedEvents_def getUncommittedEvents_def new_AggregateRoot_def)
qed

text \<open>
  As first stated, C3 holds of every aggregate. When \<open>onBroken\<close> raises, \<open>loadFromHistory\<close>
  of three events stops at the second and the loaded events grow by one; when \<open>onPlaced\<close>
  applies another event, the uncommitted events grow from none to one.
\<close>

theorem loadFromHistory_with_unruly_handlers:
  "loadFromHistory breaking
      (Given_events [plain_event ''Created'', plain_event ''Broken'', plain_event ''Closed''])
      (new_AggregateRoot ''a1'' ())
     = (Some (Error ''broken'' None None),
        (new_AggregateRoot ''a1'' ())\<lparr>INTERNAL_EVENTS_HISTORY := [plain_event ''Created'']\<rparr>)
   \<and> length (getUncommittedEvents (new_AggregateRoot ''a1'' () :: (unit, unit) AggregateRoot)) = 0
   \<and> length (getUncommittedEvents (snd (loadFromHistory auditing (Given_events [plain_event ''Placed''])
        (new_AggregateRoot ''a1'' ())))) = 1"
  by (simp add: loadFromHistory_def forEach_array_def history_step_def apply'_def getEventHandler_def
        getEventName_def auditing_def breaking_def plain_AggregateRoot_def plain_event_def
        new_AggregateRoot_def getUncommittedEvents_def)

subsection \<open>Replay from nodes\<close>

lemma replay_step_state:
  assumes "reads_state_only cls"
  shows "state (replay_step cls step this) =
           dispatch_state cls (case step of Inl node \<Rightarrow> event node | Inr ev \<Rightarrow> ev) (state this)"
proof -
  have a: "state (snd (apply' cls ev True this)) = dispatch_state cls ev (state this)" for ev
  proof (cases "getEventHandler cls ev")
    case None
    then show ?thesis by (simp add: apply'_no_handler dispatch_state_def)
  next
    case (Some m)
    have "cls (''on'' @ constructor_name ev) = Some (Method m)"
      using Some by (rule getEventHandler_Some)
    moreover have "state this = state (new_AggregateRoot [] (state this) :: ('a, 'b) AggregateRoot)"
      by (simp add: new_AggregateRoot_def)
    ultimately have "state (snd (m ev this)) = state (snd (m ev (new_AggregateRoot [] (state this))))"
      using assms unfolding reads_state_only_def by blast
    then show ?thesis using Some by (simp add: apply'_handler [OF Some] dispatch_state_def)
  qed
  show ?thesis by (cases step) (simp_all add: a Let_def)
qed

lemma fold_replay_state:
  assumes "reads_state_only cls"
  shows "state (fold (replay_step cls) steps this) =
           fold (dispatch_state cls)
             (map (\<lambda>step. case step of Inl node \<Rightarrow> event node | Inr ev \<Rightarrow> ev) steps) (state this)"
  by (induction steps arbitrary: this)
     (simp_all del: replay_step.simps add: replay_step_state [OF assms])

text \<open>
  Claim C4, as amended. For an aggregate whose handlers return, and an array of nodes that
  is the caller's own, \<open>loadFromEventNodes(nodes)\<close> returns and is the run of these steps in
  this order: for each node, its event is dispatched from history and the node recorded;
  then for each node again, its event is dispatched from history and recorded among the
  loaded events. Every event is so dispatched twice. When the handlers leave the arrays
  as they found them, each node is recorded once, each event once, and the uncommitted
  events are untouched; when they read nothing but the state, the state at the end is the
  one that two passes of the handlers over the events leave.
\<close>

theorem loadFromEventNodes_dispatches_twice:
  assumes "handlers_return cls"
  shows "loadFromEventNodes cls (Given_nodes nodes) this
           = (None, fold (replay_step cls) (map Inl nodes @ map (Inr \<circ> event) nodes) this)
       \<and> (handlers_keep INTERNAL_EVENTS_NODES_HISTORY cls \<longrightarrow>
            getLoadedEventNodes (snd (loadFromEventNodes cls (Given_nodes nodes) this))
              = getLoadedEventNodes this @ nodes)
       \<and> (handlers_keep INTERNAL_EVENTS_HISTORY cls \<longrightarrow>
            getLoadedEvents (snd (loadFromEventNodes cls (Given_nodes nodes) this))
              = getLoadedEvents this @ map event nodes)
       \<and> (handlers_keep INTERNAL_EVENTS cls \<longrightarrow>
            getUncommittedEvents (snd (loadFromEventNodes cls (Given_nodes nodes) this))
              = getUncommittedEvents this)
       \<and> (reads_state_only cls \<longrightarrow>
            getState (snd (loadFromEventNodes cls (Given_nodes nodes) this))
              = fold (dispatch_state cls) (map event nodes @ map event nodes) (getState this))"
proof (intro conjI impI)
  note run = loadFromEventNodes_own_array [OF assms, of nodes this]
  show "loadFromEventNodes cls (Given_nodes nodes) this
          = (None, fold (replay_step cls) (map Inl nodes @ map (Inr \<circ> event) nodes) this)"
    by (rule run)
  show "getLoadedEventNodes (snd (loadFromEventNodes cls (Given_nodes nodes) this))
          = getLoadedEventNodes this @ nodes"
    if "handlers_keep INTERNAL_EVENTS_NODES_HISTORY cls"
    unfolding run getLoadedEventNodes_def
    by (simp add: fold_replay_fields(3) [OF that] comp_def)
  show "getLoadedEvents (snd (loadFromEventNodes cls (Given_nodes nodes) this))
          = getLoadedEvents this @ map event nodes"
    if "handlers_keep INTERNAL_EVENTS_HISTORY cls"
    unfolding run getLoadedEvents_def
    by (simp add: fold_replay_fields(2) [OF that] comp_def)
  show "getUncommittedEvents (snd (loadFromEventNodes cls (Given_nodes nodes) this))
          = getUncommittedEvents this"
    if "handlers_keep INTERNAL_EVENTS cls"
    unfolding run getUncommittedEvents_def
    by (simp add: fold_replay_fields(1) [OF that])
  show "getState (snd (loadFromEventNodes cls (Given_nodes nodes) this))
          = fold (dispatch_state cls) (map event nodes @ map event nodes) (getState this)"
    if "reads_state_only cls"
    unfolding run getState_def
    by (simp add: fold_replay_state [OF that] comp_def)
qed


theorem loadFromEventNodes_dispatches_twice_witness:
  "handlers_return counting \<and> reads_state_only counting
   \<and> handlers_keep INTERNAL_EVENTS counting \<and> handlers_keep INTERNAL_EVENTS_HISTORY counting
   \<and> handlers_keep INTERNAL_EVENTS_NODES_HISTORY counting
   \<and> getState (snd (loadFromEventNodes counting
        (Given_nodes [node_of (plain_event ''Counted'') 0, node_of (plain_event ''Other'') 1,
                      node_of (plain_event ''Counted'') 2])
        (new_AggregateRoot ''a1'' 0))) = 4
   \<and> length (getLoadedEvents (snd (loadFromEventNodes counting
        (Given_nodes [node_of (plain_event ''Counted'') 0, node_of (plain_event ''Other'') 1,
                      node_of (plain_event ''Counted'') 2])
        (new_AggregateRoot ''a1'' 0)))) = 3
   \<and> length (getLoadedEventNodes (snd (loadFromEventNodes counting
        (Given_nodes [node_of (plain_event ''Counted'') 0, node_of (plain_event ''Other'') 1,
                      node_of (plain_event ''Counted'') 2])
        (new_AggregateRoot ''a1'' 0)))) = 3
   \<and> getUncommittedEvents (snd (loadFromEventNodes counting
        (Given_nodes [node_of (plain_event ''Counted'') 0, node_of (plain_event ''Other'') 1,
                      node_of (plain_event ''Counted'') 2])
        (new_AggregateRoot ''a1'' 0))) = []"
proof -
  let ?nodes = "[node_of (plain_event ''Counted'') 0, node_of (plain_event ''Other'') 1,
                 node_of (plain_event ''Counted'') 2]"
  let ?a = "new_AggregateRoot ''a1'' 0 :: (nat, unit) AggregateRoot"
  have r: "handlers_return counting" by simp
  note t = loadFromEventNodes_dispatches_twice [OF r, of ?nodes ?a]
  have s: "getState (snd (loadFromEventNodes counting (Given_nodes ?nodes) ?a))
             = fold (dispatch_state counting) (map event ?nodes @ map event ?nodes) (getState ?a)"
    by (rule t [THEN conjunct2, THEN conjunct2, THEN conjunct2, THEN conjunct2, THEN mp]) simp
  have l: "getLoadedEvents (snd (loadFromEventNodes counting (Given_nodes ?nodes) ?a))
             = getLoadedEvents ?a @ map event ?nodes"
    by (rule t [THEN conjunct2, THEN conjunct2, THEN conjunct1, THEN mp]) simp
  have n: "getLoadedEventNodes (snd (loadFromEventNodes counting (Given_nodes ?nodes) ?a))
             = getLoadedEventNodes ?a @ ?nodes"
    by (rule t [THEN conjunct2, THEN conjunct1, THEN mp]) simp
  have u: "getUncommittedEvents (snd (loadFromEventNodes counting (Given_nodes ?nodes) ?a))
             = getUncommittedEvents ?a"
    by (rule t [THEN conjunct2, THEN conjunct2, THEN conjunct2, THEN conjunct1, THEN mp]) simp
  show ?thesis
    unfolding s l n u
    by (simp add: dispatch_state_def getEventHandler_def getEventName_def
          counting_def node_of_def plain_event_def new_AggregateRoot_def getState_def
          getLoadedEvents_def getLoadedEventNodes_def getUncommittedEvents_def
          handlers_return_def handlers_keep_def reads_state_only_def)
qed

text \<open>
  As first stated, C4 holds of every list of nodes and every aggregate. Given the array
  that \<open>getLoadedEventNodes()\<close> returned, the first loop appends to the array it is
  reading and the second pass sees it doubled: with one node loaded, the counting
  aggregate goes from 2 to 5, three dispatches, and the loaded events from one to three.
  And when \<open>onPlaced\<close> applies another event, the two dispatches leave two uncommitted
  events.
\<close>

theorem loadFromEventNodes_on_its_own_array:
  "snd (loadFromEventNodes counting (Given_nodes [node_of (plain_event ''Counted'') 0])
          (new_AggregateRoot ''a1'' 0))
     = \<lparr> INTERNAL_EVENTS = [], INTERNAL_EVENTS_HISTORY = [plain_event ''Counted''],
         INTERNAL_EVENTS_NODES_HISTORY = [node_of (plain_event ''Counted'') 0],
         FAILURE_HANDLER = None, state = 2, aggregate_id = ''a1'' \<rparr>
   \<and> loadFromEventNodes counting The_loaded_nodes
        \<lparr> INTERNAL_EVENTS = [], INTERNAL_EVENTS_HISTORY = [plain_event ''Counted''],
          INTERNAL_EVENTS_NODES_HISTORY = [node_of (plain_event ''Counted'') 0],
          FAILURE_HANDLER = None, state = 2, aggregate_id = ''a1'' \<rparr>
     = (None,
        \<lparr> INTERNAL_EVENTS = [],
          INTERNAL_EVENTS_HISTORY = [plain_event ''Counted'', plain_event ''Counted'', plain_event ''Counted''],
          INTERNAL_EVENTS_NODES_HISTORY = [node_of (plain_event ''Counted'') 0, node_of (plain_event ''Counted'') 0],
          FAILURE_HANDLER = None, state = 5, aggregate_id = ''a1'' \<rparr>)
   \<and> getUncommittedEvents (snd (loadFromEventNodes auditing (Given_nodes [node_of (plain_event ''Placed'') 0])
        (new_AggregateRoot ''a1'' ())))
     = [plain_event ''Audited'', plain_event ''Audited'']"
  by (simp add: loadFromEventNodes_def loadFromHistory_def forEach_array_def node_step_def
        history_step_def apply'_def getEventHandler_def getEventName_def counting_def auditing_def
        plain_AggregateRoot_def node_of_def plain_event_def new_AggregateRoot_def
        getUncommittedEvents_def)

subsection \<open>Failure handling\<close>

text \<open>
  Claim C8, as amended. With a handler installed, \<open>fail(e)\<close> is the call of that handler on
  \<open>e\<close>: it returns when the handler returns and raises what the handler raises. With no
  handler it raises \<open>e\<close>. \<open>setFailureHandler\<close> replaces the handler installed before.
\<close>

theorem fail_delegates_to_handler:
  "(\<forall>handler. FAILURE_HANDLER this = Some handler \<longrightarrow>
       fail handlers error this w = handlers handler error (this, w))
   \<and> (FAILURE_HANDLER this = None \<longrightarrow> fail handlers error this w = (Some error, this, w))
   \<and> FAILURE_HANDLER (setFailureHandler h2 (setFailureHandler h1 this)) = Some h2
   \<and> fail handlers error (setFailureHandler h2 (setFailureHandler h1 this)) w
       = handlers h2 error (setFailureHandler h2 (setFailureHandler h1 this), w)
   \<and> fail handlers error (new_AggregateRoot i s0) w = (Some error, new_AggregateRoot i s0, w)"
  by (simp add: fail_def setFailureHandler_def new_AggregateRoot_def)

theorem fail_delegates_to_handler_witness:
  "FAILURE_HANDLER (setFailureHandler Unlock_only (new_AggregateRoot ''a1'' ())) = Some Unlock_only
   \<and> fail lock_handlers (Error ''boom'' None None)
        (setFailureHandler Unlock_only (new_AggregateRoot ''a1'' ())) 1
       = (None, setFailureHandler Unlock_only (new_AggregateRoot ''a1'' ()), 0)
   \<and> FAILURE_HANDLER (new_AggregateRoot ''a1'' () :: (unit, lock_handler) AggregateRoot) = None
   \<and> fail lock_handlers (Error ''boom'' None None) (new_AggregateRoot ''a1'' ()) 1
       = (Some (Error ''boom'' None None), new_AggregateRoot ''a1'' (), 1)"
proof -
  let ?b = "new_AggregateRoot ''a1'' () :: (unit, lock_handler) AggregateRoot"
  let ?a = "setFailureHandler Unlock_only ?b"
  let ?e = "Error ''boom'' None None"
  have h: "FAILURE_HANDLER ?a = Some Unlock_only"
    by (simp add: setFailureHandler_def)
  have n: "FAILURE_HANDLER ?b = None"
    by (simp add: new_AggregateRoot_def)
  have 1: "fail lock_handlers ?e ?a 1 = lock_handlers Unlock_only ?e (?a, 1)"
    by (rule fail_delegates_to_handler
          [where this = ?a and error = ?e and w = 1 and handlers = lock_handlers,
           THEN conjunct1, THEN spec, THEN mp, OF h])
  have 2: "fail lock_handlers ?e ?b 1 = (Some ?e, ?b, 1)"
    by (rule fail_delegates_to_handler
          [where this = ?b and error = ?e and w = 1 and handlers = lock_handlers,
           THEN conjunct2, THEN conjunct1, THEN mp, OF n])
  show ?thesis
    unfolding 1 2 using h n by simp
qed

text \<open>
  As first stated, C8 has \<open>fail\<close> return without raising whenever a handler is installed.
  The handler of the README unlocks and raises the error again, and \<open>fail\<close> raises with it.
\<close>

theorem fail_with_handler_may_raise:
  "\<not> (\<forall>(handlers :: lock_handler \<Rightarrow> (unit, lock_handler, nat) IAggregateFailureHandler) handler error this w.
        FAILURE_HANDLER this = Some handler \<longrightarrow> fst (fail handlers error this w) = None)"
proof
  assume a: "\<forall>(handlers :: lock_handler \<Rightarrow> (unit, lock_handler, nat) IAggregateFailureHandler) handler error this w.
        FAILURE_HANDLER this = Some handler \<longrightarrow> fst (fail handlers error this w) = None"
  have "FAILURE_HANDLER (setFailureHandler Unlock_and_rethrow (new_AggregateRoot ''a1'' ()) :: (unit, lock_handler) AggregateRoot)
          = Some Unlock_and_rethrow"
    by (simp add: setFailureHandler_def)
  with a have "fst (fail lock_handlers (Error ''boom'' None None)
                 (setFailureHandler Unlock_and_rethrow (new_AggregateRoot ''a1'' ()) :: (unit, lock_handler) AggregateRoot) 1) = None"
    by blast
  then show False
    by (simp add: fail_def setFailureHandler_def)
qed

section \<open>Properties of the test toolkit\<close>

lemma apply'_plain [simp]:
  "apply' plain_AggregateRoot ev isFromHistory this
     = (None, if isFromHistory then this else this\<lparr>INTERNAL_EVENTS := INTERNAL_EVENTS this @ [ev]\<rparr>)"
  by (simp add: apply'_def getEventHandler_def plain_AggregateRoot_def)

lemma decimal_0 [simp]: "decimal 0 = ''0''"
  by code_simp

lemma decimal_1 [simp]: "decimal (Suc 0) = ''1''"
  by code_simp







lemma three_names:
  assumes "map constructor_name buffer = [n1, n2, n3]"
  shows "buffer \<noteq> [] \<and> constructor_name (hd buffer) = n1 \<and> constructor_name (last buffer) = n3"
proof -
  from assms obtain x y z where "buffer = [x, y, z]"
    by (auto simp add: map_eq_Cons_conv)
  with assms show ?thesis by simp
qed

lemma assertEvent_first:
  assumes "map constructor_name (getUncommittedEvents (aggregate c)) = [n1, n2, n3]"
    and "set (flags c) \<subseteq> {''has'', ''first''}" and "''first'' \<in> set (flags c)"
    and "events c = [cl]"
  shows "assertEvent col c =
           (if n1 \<noteq> name cl
            then Some (throwError col
                   (''Event '' @ quoted (name cl) @ '' is not the first event in the aggregate event stream.'')
                   (name cl) n1)
            else if ''has'' \<in> set (flags c) \<and> name cl \<notin> {n1, n2, n3}
            then Some (throwError col
                   (''Event '' @ quoted (name cl) @ '' did not match any events in the aggregate stream.'') [] [])
            else None)"
proof -
  have ne: "getUncommittedEvents (aggregate c) \<noteq> []"
    and h: "getEventProtoName (hd (getUncommittedEvents (aggregate c))) = n1"
    using three_names [OF assms(1)] by (simp_all add: getEventProtoName_def)
  have off: "''excludes'' \<notin> set (flags c)" "''exactly'' \<notin> set (flags c)" "''one'' \<notin> set (flags c)"
    "''last'' \<notin> set (flags c)"
    using assms(2) by auto
  have names: "map getEventProtoName (getUncommittedEvents (aggregate c)) = [n1, n2, n3]"
    using assms(1) by (simp add: getEventProtoName_def [abs_def])
  show ?thesis
    unfolding assertEvent_def Let_def names
    using ne h off assms(3,4)
    by (auto simp add: check_first_def check_has_def getEventClassName_def occurances_def Let_def)
qed

lemma assertEvent_last:
  assumes "map constructor_name (getUncommittedEvents (aggregate c)) = [n1, n2, n3]"
    and "set (flags c) \<subseteq> {''has'', ''last''}" and "''last'' \<in> set (flags c)"
    and "events c = [cl]"
  shows "assertEvent col c =
           (if n3 \<noteq> name cl
            then Some (throwError col
                   (''Event '' @ quoted (name cl) @ '' is not the last event in the aggregate event stream.'')
                   (name cl) n3)
            else if ''has'' \<in> set (flags c) \<and> name cl \<notin> {n1, n2, n3}
            then Some (throwError col
                   (''Event '' @ quoted (name cl) @ '' did not match any events in the aggregate stream.'') [] [])
            else None)"
proof -
  have ne: "getUncommittedEvents (aggregate c) \<noteq> []"
    and h: "getEventProtoName (last (getUncommittedEvents (aggregate c))) = n3"
    using three_names [OF assms(1)] by (simp_all add: getEventProtoName_def)
  have off: "''excludes'' \<notin> set (flags c)" "''exactly'' \<notin> set (flags c)" "''one'' \<notin> set (flags c)"
    "''first'' \<notin> set (flags c)"
    using assms(2) by auto
  have names: "map getEventProtoName (getUncommittedEvents (aggregate c)) = [n1, n2, n3]"
    using assms(1) by (simp add: getEventProtoName_def [abs_def])
  show ?thesis
    unfolding assertEvent_def Let_def names
    using ne h off assms(3,4)
    by (auto simp add: check_last_def check_has_def getEventClassName_def occurances_def Let_def)
qed

text \<open>
  Claim C9. When the uncommitted events are \<open>First\<close>, \<open>Middle\<close>, \<open>Last\<close> in this order, the
  chains \<open>first.event(First)\<close> and \<open>last.event(Last)\<close> succeed, with or without \<open>has\<close> in
  front, and \<open>first.event(Middle)\<close> fails with an error whose \<open>actual\<close> is \<open>Middle\<close> and
  whose \<open>expected\<close> is \<open>First\<close>.
\<close>

theorem first_and_last_event:
  assumes "map constructor_name (getUncommittedEvents a) = [''First'', ''Middle'', ''Last'']"
  shows "chained col lc contain cls [First, Event (EventClass ''First'')] (check a)
           = Inr ((check a)\<lparr>flags := [''first''], events := [EventClass ''First'']\<rparr>)
       \<and> chained col lc contain cls [Last, Event (EventClass ''Last'')] (check a)
           = Inr ((check a)\<lparr>flags := [''last''], events := [EventClass ''Last'']\<rparr>)
       \<and> chained col lc contain cls [Has, First, Event (EventClass ''First'')] (check a)
           = Inr ((check a)\<lparr>flags := [''has'', ''first''], events := [EventClass ''First'']\<rparr>)
       \<and> chained col lc contain cls [Has, Last, Event (EventClass ''Last'')] (check a)
           = Inr ((check a)\<lparr>flags := [''has'', ''last''], events := [EventClass ''Last'']\<rparr>)
       \<and> chained col lc contain cls [First, Event (EventClass ''Middle'')] (check a)
           = Inl (throwError col
                   (''Event '' @ quoted ''Middle'' @ '' is not the first event in the aggregate event stream.'')
                   ''Middle'' ''First'')
       \<and> chained col lc contain cls [Has, First, Event (EventClass ''Middle'')] (check a)
           = Inl (throwError col
                   (''Event '' @ quoted ''Middle'' @ '' is not the first event in the aggregate event stream.'')
                   ''Middle'' ''First'')
       \<and> error_actual (throwError col
                   (''Event '' @ quoted ''Middle'' @ '' is not the first event in the aggregate event stream.'')
                   ''Middle'' ''First'') = Some ''Middle''
       \<and> error_expected (throwError col
                   (''Event '' @ quoted ''Middle'' @ '' is not the first event in the aggregate event stream.'')
                   ''Middle'' ''First'') = Some ''First''"
proof -
  have f: "assertEvent col ((check a)\<lparr>flags := fs, events := [cl]\<rparr>) =
           (if ''First'' \<noteq> name cl
            then Some (throwError col
                   (''Event '' @ quoted (name cl) @ '' is not the first event in the aggregate event stream.'')
                   (name cl) ''First'')
            else if ''has'' \<in> set fs \<and> name cl \<notin> {''First'', ''Middle'', ''Last''}
            then Some (throwError col
                   (''Event '' @ quoted (name cl) @ '' did not match any events in the aggregate stream.'') [] [])
            else None)"
    if "set fs \<subseteq> {''has'', ''first''}" "''first'' \<in> set fs" for fs cl
    using assertEvent_first [of "(check a)\<lparr>flags := fs, events := [cl]\<rparr>" "''First''" "''Middle''" "''Last''" cl col]
      assms that
    by (simp add: check_def)
  have l: "assertEvent col ((check a)\<lparr>flags := fs, events := [cl]\<rparr>) =
           (if ''Last'' \<noteq> name cl
            then Some (throwError col
                   (''Event '' @ quoted (name cl) @ '' is not the last event in the aggregate event stream.'')
                   (name cl) ''Last'')
            else if ''has'' \<in> set fs \<and> name cl \<notin> {''First'', ''Middle'', ''Last''}
            then Some (throwError col
                   (''Event '' @ quoted (name cl) @ '' did not match any events in the aggregate stream.'') [] [])
            else None)"
    if "set fs \<subseteq> {''has'', ''last''}" "''last'' \<in> set fs" for fs cl
    using assertEvent_last [of "(check a)\<lparr>flags := fs, events := [cl]\<rparr>" "''First''" "''Middle''" "''Last''" cl col]
      assms that
    by (simp add: check_def)
  have c1: "chained col lc contain cls [First, Event cl] (check a)
              = (case assertEvent col ((check a)\<lparr>flags := [''first''], events := [cl]\<rparr>) of
                   Some err \<Rightarrow> Inl err
                 | None \<Rightarrow> Inr ((check a)\<lparr>flags := [''first''], events := [cl]\<rparr>))" for cl
    by (simp add: push_flag_def addEvents_def check_def Let_def split: option.splits)
  have c2: "chained col lc contain cls [Last, Event cl] (check a)
              = (case assertEvent col ((check a)\<lparr>flags := [''last''], events := [cl]\<rparr>) of
                   Some err \<Rightarrow> Inl err
                 | None \<Rightarrow> Inr ((check a)\<lparr>flags := [''last''], events := [cl]\<rparr>))" for cl
    by (simp add: push_flag_def addEvents_def check_def Let_def split: option.splits)
  have c3: "chained col lc contain cls [Has, First, Event cl] (check a)
              = (case assertEvent col ((check a)\<lparr>flags := [''has'', ''first''], events := [cl]\<rparr>) of
                   Some err \<Rightarrow> Inl err
                 | None \<Rightarrow> Inr ((check a)\<lparr>flags := [''has'', ''first''], events := [cl]\<rparr>))" for cl
    by (simp add: push_flag_def addEvents_def check_def Let_def split: option.splits)
  have c4: "chained col lc contain cls [Has, Last, Event cl] (check a)
              = (case assertEvent col ((check a)\<lparr>flags := [''has'', ''last''], events := [cl]\<rparr>) of
                   Some err \<Rightarrow> Inl err
                 | None \<Rightarrow> Inr ((check a)\<lparr>flags := [''has'', ''last''], events := [cl]\<rparr>))" for cl
    by (simp add: push_flag_def addEvents_def check_def Let_def split: option.splits)
  show ?thesis
    unfolding c1 c2 c3 c4
    by (simp add: f l throwError_def Let_def)
qed


lemma first_middle_last_names:
  "map constructor_name (getUncommittedEvents first_middle_last) = [''First'', ''Middle'', ''Last'']"
  by (simp add: first_middle_last_def getUncommittedEvents_def plain_event_def new_AggregateRoot_def)

theorem first_and_last_event_witness:
  "map constructor_name (getUncommittedEvents first_middle_last) = [''First'', ''Middle'', ''Last'']
   \<and> chained plain_colors no_folding elements_contained plain_AggregateRoot [Has, First, Event (EventClass ''First'')]
        (check first_middle_last)
       = Inr \<lparr> aggregate = first_middle_last, flags = [''has'', ''first''], events = [EventClass ''First''],
               occuranceExpectation = - 1, withMessage = None \<rparr>
   \<and> chained plain_colors no_folding elements_contained plain_AggregateRoot [Has, Last, Event (EventClass ''Last'')]
        (check first_middle_last)
       = Inr \<lparr> aggregate = first_middle_last, flags = [''has'', ''last''], events = [EventClass ''Last''],
               occuranceExpectation = - 1, withMessage = None \<rparr>
   \<and> chained plain_colors no_folding elements_contained plain_AggregateRoot [First, Event (EventClass ''Middle'')]
        (check first_middle_last)
       = Inl (Error (''Event '' @ quoted ''Middle'' @ '' is not the first event in the aggregate event stream.''
                      @ [CHR 0x0A, CHR 0x0A] @ ''  Expected: First'' @ [CHR 0x0A] @ ''  Received: Middle'' @ [CHR 0x0A])
               (Some ''Middle'') (Some ''First''))"
  using first_and_last_event [OF first_middle_last_names, of plain_colors no_folding elements_contained plain_AggregateRoot]
    first_middle_last_names
  by (simp add: check_def throwError_def plain_colors_def)

subsection \<open>includes\<close>











subsection \<open>throws\<close>

lemma api_When: "api col lc contain cls c (When fn) = Inr (c\<lparr>aggregate := snd (fn (aggregate c))\<rparr>)"
  by (simp add: assertWhen_def Let_def split: prod.splits option.splits thrown.splits)

lemma after_failed_to_throw:
  assumes "''throws'' \<in> set (flags c)" and "fst (fn (aggregate c)) = None"
  shows "api col lc contain cls c (After [fn])
           = Inl (throwError col ''Failed to throw error for aggregate method'' [] [])"
proof (cases "fn (aggregate c)")
  case (Pair raised a)
  with assms show ?thesis by (simp add: assertWhen_def)
qed

text \<open>
  Claim C6, at the input where the code departs from it. With \<open>throws\<close> armed and a
  callback that applies an event and raises nothing, the promise of \<open>assertWhen\<close> is
  rejected with the failure to throw; \<open>when\<close> drops that promise and returns the chain, so
  its caller sees no failure; \<open>after\<close> awaits it and passes the rejection on.
\<close>

theorem when_discards_failed_to_throw:
  "fst (assertWhen plain_colors no_folding (applies plain_AggregateRoot (plain_event ''Created''))
          (push_flag ''throws'' (check (new_AggregateRoot ''a1'' ()))))
     = Some (throwError plain_colors ''Failed to throw error for aggregate method'' [] [])
   \<and> chained plain_colors no_folding elements_contained plain_AggregateRoot
        [Throws, When (applies plain_AggregateRoot (plain_event ''Created''))]
        (check (new_AggregateRoot ''a1'' ()))
       = Inr \<lparr> aggregate = snd (apply' plain_AggregateRoot (plain_event ''Created'') False (new_AggregateRoot ''a1'' ())),
               flags = [''throws''], events = [], occuranceExpectation = - 1, withMessage = None \<rparr>
   \<and> chained plain_colors no_folding elements_contained plain_AggregateRoot
        [Throws, After [applies plain_AggregateRoot (plain_event ''Created'')]]
        (check (new_AggregateRoot ''a1'' ()))
       = Inl (throwError plain_colors ''Failed to throw error for aggregate method'' [] [])"
  by (simp add: assertWhen_def applies_def push_flag_def check_def)

lemma ascii_examples:
  "list_all is_ascii ''token invalid''" "list_all is_ascii ''invalid''"
  "list_all is_ascii ''INVALID''" "list_all is_ascii ''expired''"
  by code_simp+

lemma lower_examples:
  "map lower_char ''token invalid'' = ''token invalid''"
  "map lower_char ''invalid'' = ''invalid''"
  "map lower_char ''INVALID'' = ''invalid''"
  "map lower_char ''expired'' = ''expired''"
  by code_simp+

lemma lower_token_invalid:
  "toLowerCase lc ''token invalid'' = ''token invalid''"
  "toLowerCase lc ''invalid'' = ''invalid''"
  "toLowerCase lc ''INVALID'' = ''invalid''"
  "toLowerCase lc ''expired'' = ''expired''"
  unfolding toLowerCase_def
  by (simp_all only: ascii_examples lower_examples if_True)

lemma token_invalid_includes:
  "sublist ''invalid'' ''token invalid''"
  "\<not> sublist ''expired'' ''token invalid''"
  by (simp_all add: sublist_Cons_right)

lemma with_then_after:
  assumes "''throws'' \<in> set (flags c)" and "fn (aggregate c) = (Some (Error msg act exp), a)"
  shows "chained col lc contain cls [With m, After [fn]] c =
           (if m \<noteq> [] \<and> \<not> sublist (toLowerCase lc m) (toLowerCase lc msg)
            then Inl (throwError col ''Expected error message did not match'' msg m)
            else Inr (c\<lparr>withMessage := Some m, aggregate := a\<rparr>))"
  using assms by (simp add: assertWhen_def str_includes_def)

text \<open>
  Claim C7, as amended. On a chain with \<open>throws\<close> armed, \<open>with(m)\<close> followed by \<open>after(fn)\<close>,
  where \<open>fn\<close> raises an error with message \<open>msg\<close>, is rejected exactly when \<open>m\<close> is not empty
  and \<open>m\<close> in lower case is not a substring of \<open>msg\<close> in lower case; the error carries \<open>msg\<close>
  as actual and \<open>m\<close> as expected. Lower case is the runtime's, whatever the characters
  of the two strings. For the message \<open>token invalid\<close>, \<open>invalid\<close> and \<open>INVALID\<close> pass and
  \<open>expired\<close> is rejected. \<open>with\<close> itself only stores the text and never fails.
\<close>

theorem with_before_after_matches_message:
  assumes "''throws'' \<in> set (flags c)" and "fn (aggregate c) = (Some (Error msg act exp), a)"
  shows "chained col lc contain cls [With m, After [fn]] c =
           (if m \<noteq> [] \<and> \<not> sublist (toLowerCase lc m) (toLowerCase lc msg)
            then Inl (throwError col ''Expected error message did not match'' msg m)
            else Inr (c\<lparr>withMessage := Some m, aggregate := a\<rparr>))
       \<and> (msg = ''token invalid'' \<longrightarrow>
            chained col lc contain cls [With ''invalid'', After [fn]] c
              = Inr (c\<lparr>withMessage := Some ''invalid'', aggregate := a\<rparr>)
          \<and> chained col lc contain cls [With ''INVALID'', After [fn]] c
              = Inr (c\<lparr>withMessage := Some ''INVALID'', aggregate := a\<rparr>)
          \<and> chained col lc contain cls [With ''expired'', After [fn]] c
              = Inl (throwError col ''Expected error message did not match'' ''token invalid'' ''expired''))
       \<and> api col lc contain cls c (With m) = Inr (c\<lparr>withMessage := Some m\<rparr>)"
proof (intro conjI impI)
  show "chained col lc contain cls [With m, After [fn]] c =
           (if m \<noteq> [] \<and> \<not> sublist (toLowerCase lc m) (toLowerCase lc msg)
            then Inl (throwError col ''Expected error message did not match'' msg m)
            else Inr (c\<lparr>withMessage := Some m, aggregate := a\<rparr>))"
    by (rule with_then_after [where fn = fn and c = c, OF assms])
  show "api col lc contain cls c (With m) = Inr (c\<lparr>withMessage := Some m\<rparr>)"
    by simp
next
  assume m: "msg = ''token invalid''"
  show "chained col lc contain cls [With ''invalid'', After [fn]] c
          = Inr (c\<lparr>withMessage := Some ''invalid'', aggregate := a\<rparr>)"
    unfolding with_then_after [where fn = fn and c = c, OF assms] m lower_token_invalid
    using token_invalid_includes by simp
  show "chained col lc contain cls [With ''INVALID'', After [fn]] c
          = Inr (c\<lparr>withMessage := Some ''INVALID'', aggregate := a\<rparr>)"
    unfolding with_then_after [where fn = fn and c = c, OF assms] m lower_token_invalid
    using token_invalid_includes by simp
  show "chained col lc contain cls [With ''expired'', After [fn]] c
          = Inl (throwError col ''Expected error message did not match'' ''token invalid'' ''expired'')"
    unfolding with_then_after [where fn = fn and c = c, OF assms] m lower_token_invalid
    using token_invalid_includes by simp
qed

theorem with_before_after_matches_message_witness:
  "''throws'' \<in> set (flags (push_flag ''throws'' (check (new_AggregateRoot ''a1'' ()))))
   \<and> raises ''token invalid'' (aggregate (push_flag ''throws'' (check (new_AggregateRoot ''a1'' ()))))
       = (Some (Error ''token invalid'' None None), (new_AggregateRoot ''a1'' () :: (unit, unit) AggregateRoot))
   \<and> chained plain_colors no_folding elements_contained plain_AggregateRoot
        [With ''invalid'', After [raises ''token invalid'']]
        (push_flag ''throws'' (check (new_AggregateRoot ''a1'' ())))
       = Inr \<lparr> aggregate = new_AggregateRoot ''a1'' (), flags = [''throws''], events = [],
               occuranceExpectation = - 1, withMessage = Some ''invalid'' \<rparr>
   \<and> chained plain_colors no_folding elements_contained plain_AggregateRoot
        [With ''expired'', After [raises ''token invalid'']]
        (push_flag ''throws'' (check (new_AggregateRoot ''a1'' ())))
       = Inl (throwError plain_colors ''Expected error message did not match'' ''token invalid'' ''expired'')"
proof -
  let ?c = "push_flag ''throws'' (check (new_AggregateRoot ''a1'' ())) :: (unit, unit) chain"
  have f: "''throws'' \<in> set (flags ?c)"
    by (simp add: push_flag_def check_def)
  have r: "raises ''token invalid'' (aggregate ?c)
             = (Some (Error ''token invalid'' None None), new_AggregateRoot ''a1'' ())"
    by (simp add: raises_def push_flag_def check_def)
  note t = with_before_after_matches_message
             [where fn = "raises ''token invalid''" and c = ?c and col = plain_colors and lc = no_folding
                and contain = elements_contained and cls = plain_AggregateRoot, OF f r]
  have 1: "chained plain_colors no_folding elements_contained plain_AggregateRoot
             [With ''invalid'', After [raises ''token invalid'']] ?c
           = Inr (?c\<lparr>withMessage := Some ''invalid'', aggregate := new_AggregateRoot ''a1'' ()\<rparr>)"
    using t by blast
  have 2: "chained plain_colors no_folding elements_contained plain_AggregateRoot
             [With ''expired'', After [raises ''token invalid'']] ?c
           = Inl (throwError plain_colors ''Expected error message did not match'' ''token invalid'' ''expired'')"
    using t by blast
  show ?thesis
    unfolding 1 2 using f r by (simp add: push_flag_def check_def)
qed

text \<open>
  As first stated, C7 has a \<open>with('expired')\<close> that follows the operation fail. The
  comparison is made while the operation runs, with the text stored by then: a \<open>with\<close>
  that comes after it returns the chain.
\<close>

theorem with_after_the_operation_never_fails:
  "chained plain_colors no_folding elements_contained plain_AggregateRoot
     [Throws, After [raises ''token invalid''], With ''expired'']
     (check (new_AggregateRoot ''a1'' ()))
   = Inr \<lparr> aggregate = new_AggregateRoot ''a1'' (), flags = [''throws''], events = [],
           occuranceExpectation = - 1, withMessage = Some ''expired'' \<rparr>
   \<and> chained plain_colors no_folding elements_contained plain_AggregateRoot
     [Throws, When (raises ''token invalid''), With ''expired'']
     (check (new_AggregateRoot ''a1'' ()))
   = Inr \<lparr> aggregate = new_AggregateRoot ''a1'' (), flags = [''throws''], events = [],
           occuranceExpectation = - 1, withMessage = Some ''expired'' \<rparr>"
  by (simp add: assertWhen_def raises_def push_flag_def check_def)

end
